theory Spec2Isabelle
  imports Main "HOL-Library.Word"
begin

section \<open>JavaScript strings\<close>

text \<open>
  A JavaScript string is a sequence of UTF-16 code units, and \<open>length\<close>, \<open>slice\<close>,
  \<open>lastIndexOf\<close> and the template literals of the crawler all count code units. The
  ellipsis that \<open>truncate\<close> appends (U+2026) and the curly quotes of the synthesized
  questions (U+201C, U+201D) are one code unit each.
\<close>

type_synonym jschar = "16 word"
type_synonym jsstring = "jschar list"

definition js :: "string \<Rightarrow> jsstring" where
  "js s = map of_char s"

section \<open>Data model\<close>

text \<open>
  The numeric knobs of the configuration are produced by \<open>toNumber\<close>, which admits only
  finite numbers greater than zero, and \<open>concurrency\<close> is clamped into \<open>[1, 5]\<close> by
  \<open>buildConfig\<close>. Each knob is used in one way only: \<open>maxFaqs\<close> and \<open>concurrency\<close> as
  the count of \<open>slice\<close> and \<open>splice\<close> (which take the integral part), \<open>maxPages\<close> and
  \<open>minSectionChars\<close> in comparisons with lengths. They are natural numbers here.
\<close>

record section_ =
  heading :: jsstring
  content :: jsstring
  snippet :: jsstring

record page =
  url :: jsstring
  title :: jsstring
  description :: jsstring
  summary :: jsstring
  sections :: "section_ list"
  links :: "jsstring list"
  wordCount :: nat

record config =
  url :: jsstring
  origin :: jsstring
  siteName :: jsstring
  maxPages :: nat
  maxFaqs :: nat
  concurrency :: nat
  requestTimeout :: nat
  pauseMs :: nat
  minSectionChars :: nat
  browserTimeout :: nat
  renderWithBrowser :: bool
  seedUrls :: "jsstring list"
  spaViews :: "(jsstring \<times> jsstring) list"
  userAgent :: jsstring
  outputPath :: jsstring

record faq =
  question :: jsstring
  answer :: jsstring
  sourceUrl :: jsstring
  tags :: "jsstring list"

text \<open>
  The metrics \<open>avgAnswerWords\<close>, \<open>estimatedAnswerTokens\<close> and \<open>coverageScore\<close> are
  floating-point figures derived from \<open>totalWords\<close>, \<open>totalFaqs\<close> and \<open>pagesCrawled\<close>;
  the record keeps the integers they are computed from.
\<close>

record metrics =
  pagesCrawled :: nat
  sectionsExtracted :: nat
  totalFaqs :: nat
  totalWords :: nat

record report_entry =
  report_url :: jsstring
  report_title :: jsstring
  report_sections :: nat
  report_hasSummary :: bool

record dataset =
  generatedAt :: jsstring
  source_url :: jsstring
  source_siteName :: jsstring
  config_maxPages :: nat
  config_maxFaqs :: nat
  config_minSectionChars :: nat
  dataset_metrics :: metrics
  faqs :: "faq list"
  crawlReport :: "report_entry list"

text \<open>The document tree that \<open>cheerio.load\<close> builds from an HTML text.\<close>

datatype node =
  TextNode jsstring
| Element jsstring "(jsstring \<times> jsstring) list" "node list"

text \<open>
  The object of the platform's \<open>URL\<close> class (WHATWG URL Standard), as far as the
  crawler reads and writes it. \<open>prefix\<close> is the serialised scheme and authority
  (\<open>https://x.com\<close>), \<open>origin\<close> the value of the \<open>origin\<close> getter, \<open>pathname\<close> the serialised
  path, \<open>opaque\<close> tells a URL with an opaque path (\<open>mailto:\<close>, \<open>javascript:\<close>), and
  \<open>query\<close> and \<open>fragment\<close> are null (\<open>None\<close>) or the text after \<open>?\<close> and \<open>#\<close>. The
  serialisation is the four parts in a row; the marker \<open>/.\<close> that the serializer puts
  before a path that begins with two slashes when there is no host is left out.
\<close>

record URL =
  prefix :: jsstring
  origin :: jsstring
  opaque :: bool
  pathname :: jsstring
  query :: "jsstring option"
  fragment :: "jsstring option"

text \<open>What \<open>axios.get\<close> resolves to; \<open>data\<close> is \<open>None\<close> when the body is not a string.\<close>

record response =
  data :: "jsstring option"
  status :: nat

text \<open>
  The mutable state of \<open>crawlSite\<close>: its three local variables, and the log of the
  calls of \<open>fetchHtml\<close> and \<open>fetchRenderedHtml\<close> made so far (the URL of each call).
\<close>

record crawl_state =
  queue :: "jsstring list"
  visited :: "jsstring list"
  pages :: "page list"
  fetched :: "jsstring list"
  rendered :: "jsstring list"

text \<open>
  The platform the crawler runs on: the URL parser of the \<open>URL\<close> class with one and
  with two arguments (\<open>None\<close> when the constructor throws), \<open>URLSearchParams.get\<close>,
  \<open>String.prototype.toLowerCase\<close>, the HTML parser of cheerio, the network
  (\<open>axios.get\<close>, \<open>None\<close> when the request throws), the headless browser session of
  \<open>fetchRenderedHtml\<close> (\<open>None\<close> when it fails), whether puppeteer is installed,
  writing the output file (\<open>None\<close> when it succeeds, the message of the error when
  it throws), and the clock.
\<close>

record platform =
  URL_new :: "jsstring \<Rightarrow> URL option"
  URL_new_base :: "jsstring \<Rightarrow> jsstring \<Rightarrow> URL option"
  searchParams_get :: "URL \<Rightarrow> jsstring \<Rightarrow> jsstring option"
  toLowerCase :: "jsstring \<Rightarrow> jsstring"
  cheerio_load :: "jsstring \<Rightarrow> node list"
  axios_get :: "jsstring \<Rightarrow> response option"
  puppeteer_installed :: bool
  browser_session :: "jsstring \<Rightarrow> jsstring option"
  fs_writeFile :: "jsstring \<Rightarrow> jsstring option"
  now :: jsstring

text \<open>What a run of \<open>main\<close> leaves behind.\<close>

record run =
  exitCode :: nat
  errorMessage :: "jsstring option"
  built :: "dataset option"
  written :: "dataset option"

section \<open>String helpers\<close>

text \<open>
  The characters matched by \<open>\s\<close> in a regular expression and removed by
  \<open>String.prototype.trim\<close>: ECMAScript WhiteSpace and LineTerminator.
\<close>

definition isWhiteSpace :: "jschar \<Rightarrow> bool" where
  "isWhiteSpace c \<longleftrightarrow>
     c \<in> {0x09, 0x0A, 0x0B, 0x0C, 0x0D, 0x20, 0xA0, 0x1680, 0x2000, 0x2001, 0x2002,
          0x2003, 0x2004, 0x2005, 0x2006, 0x2007, 0x2008, 0x2009, 0x200A, 0x2028,
          0x2029, 0x202F, 0x205F, 0x3000, 0xFEFF}"

definition trimStart :: "jsstring \<Rightarrow> jsstring" where
  "trimStart s = dropWhile isWhiteSpace s"

definition trimEnd :: "jsstring \<Rightarrow> jsstring" where
  "trimEnd s = rev (dropWhile isWhiteSpace (rev s))"

definition trim :: "jsstring \<Rightarrow> jsstring" where
  "trim s = trimEnd (trimStart s)"

definition startsWith :: "jsstring \<Rightarrow> jsstring \<Rightarrow> bool" where
  "startsWith s p \<longleftrightarrow> take (length p) s = p"

definition endsWith :: "jsstring \<Rightarrow> jsstring \<Rightarrow> bool" where
  "endsWith s p \<longleftrightarrow> length p \<le> length s \<and> drop (length s - length p) s = p"

text \<open>\<open>s.lastIndexOf(c)\<close> for a one-character needle: the last index, or \<open>-1\<close>.\<close>

fun lastIndexOf :: "jsstring \<Rightarrow> jschar \<Rightarrow> int" where
  "lastIndexOf [] c = -1"
| "lastIndexOf (x # xs) c =
     (let r = lastIndexOf xs c
      in if r \<ge> 0 then r + 1 else if x = c then 0 else -1)"

text \<open>\<open>parts.join(sep)\<close>.\<close>

fun join :: "jsstring \<Rightarrow> jsstring list \<Rightarrow> jsstring" where
  "join sep [] = []"
| "join sep [x] = x"
| "join sep (x # y # ys) = x @ sep @ join sep (y # ys)"

text \<open>
  \<open>str.replace(/\s+/g, ' ')\<close>: every maximal run of white space becomes one space.
\<close>

function collapseWs :: "jsstring \<Rightarrow> jsstring" where
  "collapseWs [] = []"
| "collapseWs (c # cs) =
     (if isWhiteSpace c then 0x20 # collapseWs (dropWhile isWhiteSpace cs)
      else c # collapseWs cs)"
  by pat_completeness auto
termination
  by (relation "measure length") (auto simp: less_Suc_eq_le length_dropWhile_le)

text \<open>
  \<^verbatim>\<open>
  function cleanText(str = '') {
    return str.replace(/\s+/g, ' ').replace(/\u200B/g, '').trim();
  }
  \<close>
\<close>

definition cleanText :: "jsstring \<Rightarrow> jsstring" where
  "cleanText str = trim (filter (\<lambda>c. c \<noteq> 0x200B) (collapseWs str))"

text \<open>
  \<open>s.split(/\s+/).filter(Boolean)\<close>: the maximal runs of non-white-space characters.
\<close>

function splitWs :: "jsstring \<Rightarrow> jsstring list" where
  "splitWs [] = []"
| "splitWs (c # cs) =
     (if isWhiteSpace c then splitWs cs
      else (c # takeWhile (\<lambda>x. \<not> isWhiteSpace x) cs)
             # splitWs (dropWhile (\<lambda>x. \<not> isWhiteSpace x) cs))"
  by pat_completeness auto
termination
  by (relation "measure length") (auto simp: less_Suc_eq_le length_dropWhile_le)

text \<open>
  \<^verbatim>\<open>
  function countWords(text = '') {
    const tokens = cleanText(text).split(/\s+/).filter(Boolean);
    return tokens.length;
  }
  \<close>
\<close>

definition countWords :: "jsstring \<Rightarrow> nat" where
  "countWords text = length (splitWs (cleanText text))"

subsection \<open>truncate\<close>

text \<open>
  \<^verbatim>\<open>
  function truncate(text, max) {
    if (!text || text.length <= max) return text;
    const shortened = text.slice(0, max);
    const lastPeriod = shortened.lastIndexOf('.');
    if (lastPeriod > max * 0.6) {
      return `${shortened.slice(0, lastPeriod + 1).trim()} \u2026`;
    }
    return `${shortened.trim()} \u2026`;
  }
  \<close>
  (the source has the character U+2026 itself after the space). \<open>max\<close> is a
  non-negative integer at every call (320, 600, 1200). The test
  \<open>lastPeriod > max * 0.6\<close> is written with the exact product, \<open>5 * lastPeriod > 3 * max\<close>.
\<close>

definition ellipsis :: jsstring where
  "ellipsis = [0x20, 0x2026]"

definition truncate :: "jsstring \<Rightarrow> nat \<Rightarrow> jsstring" where
  "truncate text maxLen =
     (if text = [] \<or> length text \<le> maxLen then text
      else let shortened = take maxLen text;
               lastPeriod = lastIndexOf shortened 0x2E
           in if 5 * lastPeriod > 3 * int maxLen
              then trim (take (nat (lastPeriod + 1)) shortened) @ ellipsis
              else trim shortened @ ellipsis)"

section \<open>The document tree (cheerio)\<close>

text \<open>\<open>$(el).text()\<close>: the text of the element's descendants, concatenated.\<close>

fun text_of :: "node \<Rightarrow> jsstring" where
  "text_of (TextNode t) = t"
| "text_of (Element n as cs) = concat (map text_of cs)"

fun isElement :: "node \<Rightarrow> bool" where
  "isElement (TextNode t) = False"
| "isElement (Element n as cs) = True"

fun tagName :: "node \<Rightarrow> jsstring" where
  "tagName (TextNode t) = []"
| "tagName (Element n as cs) = n"

text \<open>\<open>$(el).attr(name)\<close>; \<open>None\<close> is \<open>undefined\<close>.\<close>

fun attr :: "node \<Rightarrow> jsstring \<Rightarrow> jsstring option" where
  "attr (TextNode t) k = None"
| "attr (Element n as cs) k = map_of as k"

text \<open>
  All elements below a list of sibling nodes, in document order, each with the
  elements that follow it among its siblings: what \<open>$(el).next()\<close>,
  \<open>.next().next()\<close>, ... visit.
\<close>

fun elementsIn :: "node list \<Rightarrow> (node \<times> node list) list" where
  "elementsIn [] = []"
| "elementsIn (TextNode t # rest) = elementsIn rest"
| "elementsIn (Element n as cs # rest) =
     (Element n as cs, filter isElement rest) # elementsIn cs @ elementsIn rest"

text \<open>
  \<open>$('name')\<close>, \<open>$('h1, h2, h3')\<close>: the elements whose tag name is one of the given
  names (the HTML parser yields lower-case names), in document order.
\<close>

definition select :: "jsstring list \<Rightarrow> node list \<Rightarrow> (node \<times> node list) list" where
  "select names doc = filter (\<lambda>(el, nexts). tagName el \<in> set names) (elementsIn doc)"

text \<open>\<open>$('name').text()\<close>: the texts of all matched elements, concatenated.\<close>

definition textOfAll :: "jsstring list \<Rightarrow> node list \<Rightarrow> jsstring" where
  "textOfAll names doc = concat (map (\<lambda>(el, nexts). text_of el) (select names doc))"

text \<open>\<open>$('name').first().text()\<close>.\<close>

definition textOfFirst :: "jsstring list \<Rightarrow> node list \<Rightarrow> jsstring" where
  "textOfFirst names doc =
     (case select names doc of [] \<Rightarrow> [] | (el, nexts) # _ \<Rightarrow> text_of el)"

text \<open>The decimal numeral of a natural number, as a template literal prints it.\<close>

function showNat :: "nat \<Rightarrow> jsstring" where
  "showNat n =
     (if n < 10 then [0x30 + of_nat n]
      else showNat (n div 10) @ [0x30 + of_nat (n mod 10)])"
  by pat_completeness auto
termination
  by (relation "measure id") auto

declare showNat.simps [simp del]

section \<open>Content extraction\<close>

text \<open>\<open>/^h[1-3]$/i.test(name)\<close>.\<close>

definition isHeadingName :: "jsstring \<Rightarrow> bool" where
  "isHeadingName n \<longleftrightarrow>
     n \<in> {js ''h1'', js ''h2'', js ''h3'', js ''H1'', js ''H2'', js ''H3''}"

text \<open>
  \<^verbatim>\<open>
    const chunks = [];
    let next = $(el).next();
    while (next.length > 0) {
      if (/^h[1-3]$/i.test(next[0].name)) break;
      const text = cleanText(next.text());
      if (text) chunks.push(text);
      next = next.next();
    }
  \<close>
  over the following sibling elements of the heading.
\<close>

fun collectChunks :: "node list \<Rightarrow> jsstring list" where
  "collectChunks [] = []"
| "collectChunks (next # rest) =
     (if isHeadingName (tagName next) then []
      else let text = cleanText (text_of next)
           in (if text \<noteq> [] then [text] else []) @ collectChunks rest)"

text \<open>One step of \<open>$('h1, h2, h3').each(...)\<close> in \<open>extractSections\<close>.\<close>

definition headingSection :: "nat \<Rightarrow> section_ list \<Rightarrow> node \<times> node list \<Rightarrow> section_ list" where
  "headingSection minChars acc m =
     (case m of (el, nexts) \<Rightarrow>
        let h = cleanText (text_of el)
        in if h = [] then acc
           else let c = join (js '' '') (collectChunks nexts)
                in if length c < minChars then acc
                   else acc @ [\<lparr>heading = h, content = c, snippet = truncate c 320\<rparr>])"

text \<open>One step of \<open>$('p').each((index, el) => ...)\<close> in \<open>extractSections\<close>.\<close>

definition paragraphSection :: "nat \<Rightarrow> section_ list \<Rightarrow> nat \<times> node \<Rightarrow> section_ list" where
  "paragraphSection minChars acc m =
     (case m of (index, el) \<Rightarrow>
        let paragraph = cleanText (text_of el)
        in if length paragraph < minChars then acc
           else acc @ [\<lparr>heading = js ''Key Insight '' @ showNat (index + 1),
                        content = paragraph, snippet = truncate paragraph 320\<rparr>])"

text \<open>
  \<^verbatim>\<open>
  function extractSections($, minChars) {
    const sections = [];
    $('h1, h2, h3').each((_, el) => {
      const heading = cleanText($(el).text());
      if (!heading) return;
      ... chunks ...
      const content = chunks.join(' ');
      if (content.length < minChars) return;
      sections.push({ heading, content, snippet: truncate(content, 320) });
    });
    if (sections.length === 0) {
      $('p').each((index, el) => {
        const paragraph = cleanText($(el).text());
        if (paragraph.length < minChars) return;
        sections.push({ heading: `Key Insight ${index + 1}`, content: paragraph,
                        snippet: truncate(paragraph, 320) });
      });
    }
    if (sections.length === 0) {
      const bodyText = cleanText($('body').text());
      if (bodyText.length >= minChars) {
        sections.push({ heading: 'Site Overview', content: bodyText,
                        snippet: truncate(bodyText, 320) });
      }
    }
    return sections;
  }
  \<close>
\<close>

definition extractSections :: "node list \<Rightarrow> nat \<Rightarrow> section_ list" where
  "extractSections doc minChars =
     (let s1 = foldl (headingSection minChars) []
                 (select [js ''h1'', js ''h2'', js ''h3''] doc);
          ps = map fst (select [js ''p''] doc);
          s2 = (if length s1 = 0
                then foldl (paragraphSection minChars) s1 (zip [0 ..< length ps] ps)
                else s1);
          bodyText = cleanText (textOfAll [js ''body''] doc)
      in if length s2 = 0
         then (if length bodyText \<ge> minChars
               then s2 @ [\<lparr>heading = js ''Site Overview'', content = bodyText,
                            snippet = truncate bodyText 320\<rparr>]
               else s2)
         else s2)"

text \<open>
  \<^verbatim>\<open>
  function buildSummary($, sections) {
    const primary = sections.map((section) => section.content).join(' ').trim();
    const fallback = cleanText($('main').text()) || cleanText($('body').text());
    const text = primary.length > 250 ? primary : fallback;
    if (!text) return '';
    return truncate(text, 600);
  }
  \<close>
\<close>

definition buildSummary :: "node list \<Rightarrow> section_ list \<Rightarrow> jsstring" where
  "buildSummary doc secs =
     (let primary = trim (join (js '' '') (map content secs));
          mainText = cleanText (textOfAll [js ''main''] doc);
          fallback = (if mainText \<noteq> [] then mainText
                      else cleanText (textOfAll [js ''body''] doc));
          text = (if length primary > 250 then primary else fallback)
      in if text = [] then [] else truncate text 600)"

section \<open>URL normalization\<close>

text \<open>
  The setter \<open>url.hash = ''\<close> of the URL Standard: the fragment becomes null, and the
  trailing spaces of an opaque path are removed when the query is null as well.
\<close>

definition set_hash_empty :: "URL \<Rightarrow> URL" where
  "set_hash_empty u =
     u\<lparr>fragment := None,
       pathname := (if opaque u \<and> query u = None
                    then rev (dropWhile (\<lambda>c. c = 0x20) (rev (pathname u)))
                    else pathname u)\<rparr>"

text \<open>
  The setter \<open>url.pathname = p\<close>: nothing happens to a URL with an opaque path;
  otherwise the path is replaced. The crawler assigns only a serialised path without
  its final slash, which the path parser of the URL Standard reads back unchanged.
\<close>

definition set_pathname :: "URL \<Rightarrow> jsstring \<Rightarrow> URL" where
  "set_pathname u p = (if opaque u then u else u\<lparr>pathname := p\<rparr>)"

text \<open>\<open>url.toString()\<close>: the URL serializer.\<close>

definition toString :: "URL \<Rightarrow> jsstring" where
  "toString u =
     prefix u @ pathname u
     @ (case query u of None \<Rightarrow> [] | Some q \<Rightarrow> 0x3F # q)
     @ (case fragment u of None \<Rightarrow> [] | Some f \<Rightarrow> 0x23 # f)"

text \<open>
  The two assignments of \<open>normalizeUrl\<close> on the parsed URL:
  \<^verbatim>\<open>
    url.hash = '';
    if (url.pathname !== '/' && url.pathname.endsWith('/')) {
      url.pathname = url.pathname.slice(0, -1);
    }
  \<close>
\<close>

definition stripUrl :: "URL \<Rightarrow> URL" where
  "stripUrl url0 =
     (let url1 = set_hash_empty url0
      in if pathname url1 \<noteq> js ''/'' \<and> endsWith (pathname url1) (js ''/'')
         then set_pathname url1 (butlast (pathname url1))
         else url1)"

text \<open>
  \<^verbatim>\<open>
  function normalizeUrl(input) {
    try {
      const url = new URL(input);
      url.hash = '';
      if (url.pathname !== '/' && url.pathname.endsWith('/')) {
        url.pathname = url.pathname.slice(0, -1);
      }
      return url.toString();
    } catch (error) {
      return null;
    }
  }
  \<close>
\<close>

definition normalizeUrl :: "platform \<Rightarrow> jsstring \<Rightarrow> jsstring option" where
  "normalizeUrl P input =
     (case URL_new P input of
        None \<Rightarrow> None
      | Some url0 \<Rightarrow> Some (toString (stripUrl url0)))"

text \<open>
  \<^verbatim>\<open>
  function getSpaViewId(url) {
    try {
      const parsed = new URL(url);
      return parsed.searchParams.get('__spaView');
    } catch (error) {
      return null;
    }
  }
  \<close>
\<close>

definition getSpaViewId :: "platform \<Rightarrow> jsstring \<Rightarrow> jsstring option" where
  "getSpaViewId P u =
     (case URL_new P u of
        None \<Rightarrow> None
      | Some parsed \<Rightarrow> searchParams_get P parsed (js ''__spaView''))"

section \<open>Links and pages\<close>

text \<open>
  One step of \<open>$('a[href]').each(...)\<close> in \<open>extractLinks\<close>; \<open>acc\<close> is the \<open>Set\<close> of
  links in insertion order.
  \<^verbatim>\<open>
    const raw = $(el).attr('href');
    if (!raw || raw.startsWith('#')) return;
    if (raw.startsWith('mailto:') || raw.startsWith('tel:')) return;
    try {
      const resolved = new URL(raw, baseUrl);
      resolved.hash = '';
      const normalized = normalizeUrl(resolved.toString());
      if (normalized) { links.add(normalized); }
    } catch (error) { }
  \<close>
\<close>

definition addLink :: "platform \<Rightarrow> jsstring \<Rightarrow> jsstring list \<Rightarrow> jsstring \<Rightarrow> jsstring list" where
  "addLink P baseUrl acc raw =
     (if raw = [] \<or> startsWith raw (js ''#'') then acc
      else if startsWith raw (js ''mailto:'') \<or> startsWith raw (js ''tel:'') then acc
      else case URL_new_base P raw baseUrl of
             None \<Rightarrow> acc
           | Some resolved \<Rightarrow>
               (case normalizeUrl P (toString (set_hash_empty resolved)) of
                  None \<Rightarrow> acc
                | Some normalized \<Rightarrow>
                    if normalized = [] \<or> normalized \<in> set acc then acc
                    else acc @ [normalized]))"

definition extractLinks :: "platform \<Rightarrow> node list \<Rightarrow> jsstring \<Rightarrow> jsstring list" where
  "extractLinks P doc baseUrl =
     foldl (addLink P baseUrl) []
       (List.map_filter (\<lambda>(el, nexts). attr el (js ''href'')) (select [js ''a''] doc))"

text \<open>\<open>$('meta[name="description"]').attr('content')\<close>, \<open>undefined\<close> read as \<open>''\<close>.\<close>

definition metaDescription :: "node list \<Rightarrow> jsstring" where
  "metaDescription doc =
     (case filter (\<lambda>(el, nexts). attr el (js ''name'') = Some (js ''description''))
             (select [js ''meta''] doc) of
        [] \<Rightarrow> []
      | (el, nexts) # _ \<Rightarrow> (case attr el (js ''content'') of None \<Rightarrow> [] | Some c \<Rightarrow> c))"

text \<open>
  \<^verbatim>\<open>
  function extractPageContent(html, url, config) {
    const $ = cheerio.load(html);
    const title = cleanText($('title').first().text()) || url;
    const description = cleanText($('meta[name="description"]').attr('content')) || '';
    const sections = extractSections($, config.minSectionChars);
    const summary = buildSummary($, sections);
    const links = extractLinks($, url);
    return { url, title, description, summary, sections, links,
             wordCount: countWords(summary || $('body').text()) };
  }
  \<close>
\<close>

definition extractPageContent :: "platform \<Rightarrow> jsstring \<Rightarrow> jsstring \<Rightarrow> config \<Rightarrow> page" where
  "extractPageContent P html u cfg =
     (let doc = cheerio_load P html;
          t = cleanText (textOfFirst [js ''title''] doc);
          secs = extractSections doc (minSectionChars cfg);
          summ = buildSummary doc secs
      in \<lparr>page.url = u,
          title = (if t \<noteq> [] then t else u),
          description = cleanText (metaDescription doc),
          summary = summ,
          sections = secs,
          links = extractLinks P doc u,
          wordCount = countWords (if summ \<noteq> [] then summ
                                  else textOfAll [js ''body''] doc)\<rparr>)"

section \<open>The render-need heuristic of the crawler\<close>

text \<open>
  \<^verbatim>\<open>
  function needsBrowserRender(page) {
    const summaryLength = page.summary ? page.summary.length : 0;
    const wordCount = page.wordCount || 0;
    return page.sections.length === 0 && (summaryLength < 160 || wordCount < 40);
  }
  \<close>
\<close>

definition needsBrowserRender :: "page \<Rightarrow> bool" where
  "needsBrowserRender p =
     (let summaryLength = (if summary p \<noteq> [] then length (summary p) else 0);
          wc = (if wordCount p \<noteq> 0 then wordCount p else 0)
      in length (sections p) = 0 \<and> (summaryLength < 160 \<or> wc < 40))"

section \<open>Fetching and processing one URL\<close>

text \<open>
  \<^verbatim>\<open>
  async function fetchHtml(url, config) {
    try {
      const response = await axios.get(url, {...});
      return { html: typeof response.data === 'string' ? response.data : '',
               status: response.status };
    } catch (error) { return null; }
  }
  \<close>
  The result is the pair of \<open>html\<close> and \<open>status\<close>.
\<close>

definition fetchHtml :: "platform \<Rightarrow> jsstring \<Rightarrow> (jsstring \<times> nat) option" where
  "fetchHtml P u =
     (case axios_get P u of
        None \<Rightarrow> None
      | Some r \<Rightarrow> Some (case data r of Some s \<Rightarrow> s | None \<Rightarrow> [], status r))"

text \<open>
  \<open>fetchRenderedHtml\<close> returns null when puppeteer cannot be loaded; otherwise it
  drives a headless browser and returns the content of the page, or null when
  anything in the session throws.
\<close>

definition fetchRenderedHtml :: "platform \<Rightarrow> jsstring \<Rightarrow> jsstring option" where
  "fetchRenderedHtml P u = (if \<not> puppeteer_installed P then None else browser_session P u)"

text \<open>
  \<^verbatim>\<open>
  async function processPage(url, visited, config) {
    const normalizedUrl = normalizeUrl(url);
    if (!normalizedUrl || visited.has(normalizedUrl)) { return null; }
    visited.add(normalizedUrl);
    const spaViewId = getSpaViewId(normalizedUrl);
    const forceBrowser = Boolean(spaViewId);
    const staticResponse = forceBrowser ? null : await fetchHtml(normalizedUrl, config);
    let page = staticResponse?.html
      ? extractPageContent(staticResponse.html, normalizedUrl, config) : null;
    if (config.renderWithBrowser &&
        (forceBrowser || !page || needsBrowserRender(page) ||
         (staticResponse && staticResponse.status >= 400))) {
      const renderedHtml = await fetchRenderedHtml(normalizedUrl, config);
      if (renderedHtml) { page = extractPageContent(renderedHtml, normalizedUrl, config); }
    }
    if (!page) return null;
    const links = page.links || [];
    return { page, links };
  }
  \<close>
  The function returns its result and the state, in which \<open>visited\<close> and the two call
  logs may have grown. Each task of a batch runs up to its first \<open>await\<close> when it is
  created, so the tests and updates of \<open>visited\<close> happen in the order of the batch.
\<close>

definition processPage ::
  "platform \<Rightarrow> config \<Rightarrow> jsstring \<Rightarrow> crawl_state \<Rightarrow> (page \<times> jsstring list) option \<times> crawl_state" where
  "processPage P cfg u st =
     (case normalizeUrl P u of
        None \<Rightarrow> (None, st)
      | Some normalizedUrl \<Rightarrow>
          if normalizedUrl = [] \<or> normalizedUrl \<in> set (visited st) then (None, st)
          else
            let st1 = st\<lparr>visited := visited st @ [normalizedUrl]\<rparr>;
                forceBrowser = (case getSpaViewId P normalizedUrl of
                                  None \<Rightarrow> False | Some v \<Rightarrow> v \<noteq> []);
                staticResponse = (if forceBrowser then None else fetchHtml P normalizedUrl);
                st2 = (if forceBrowser then st1
                       else st1\<lparr>fetched := fetched st1 @ [normalizedUrl]\<rparr>);
                page0 = (case staticResponse of
                           None \<Rightarrow> None
                         | Some (html, code) \<Rightarrow>
                             if html \<noteq> []
                             then Some (extractPageContent P html normalizedUrl cfg)
                             else None);
                render = (renderWithBrowser cfg \<and>
                          (forceBrowser
                           \<or> (case page0 of None \<Rightarrow> True | Some p \<Rightarrow> needsBrowserRender p)
                           \<or> (case staticResponse of
                                 None \<Rightarrow> False | Some (html, code) \<Rightarrow> code \<ge> 400)));
                page1 = (if render
                         then (case fetchRenderedHtml P normalizedUrl of
                                 None \<Rightarrow> page0
                               | Some renderedHtml \<Rightarrow>
                                   if renderedHtml \<noteq> []
                                   then Some (extractPageContent P renderedHtml normalizedUrl cfg)
                                   else page0)
                         else page0);
                st3 = (if render then st2\<lparr>rendered := rendered st2 @ [normalizedUrl]\<rparr>
                       else st2)
            in case page1 of
                 None \<Rightarrow> (None, st3)
               | Some p \<Rightarrow> (Some (p, links p), st3))"

section \<open>The crawl loop\<close>

text \<open>
  The body of \<open>links.forEach\<close> in \<open>crawlSite\<close>:
  \<^verbatim>\<open>
    if (pages.length + queue.length >= config.maxPages ||
        visited.has(link) || queue.includes(link)) { return; }
    if (link.startsWith(config.origin)) { queue.push(link); }
  \<close>
\<close>

definition enqueueLink :: "config \<Rightarrow> jsstring \<Rightarrow> crawl_state \<Rightarrow> crawl_state" where
  "enqueueLink cfg link st =
     (if length (pages st) + length (queue st) \<ge> maxPages cfg
         \<or> link \<in> set (visited st) \<or> link \<in> set (queue st)
      then st
      else if startsWith link (config.origin cfg) then st\<lparr>queue := queue st @ [link]\<rparr>
      else st)"

text \<open>
  The body of \<open>results.filter(Boolean).forEach(({ page, links }) => ...)\<close>:
  \<open>pages.push(page)\<close>, then every link in turn.
\<close>

definition addResult :: "config \<Rightarrow> page \<times> jsstring list \<Rightarrow> crawl_state \<Rightarrow> crawl_state" where
  "addResult cfg r st =
     (case r of (p, ls) \<Rightarrow> fold (enqueueLink cfg) ls (st\<lparr>pages := pages st @ [p]\<rparr>))"

text \<open>
  \<open>batch.map((url) => processPage(url, visited, config).catch(() => null))\<close> followed
  by \<open>Promise.all\<close>: the results in the order of the batch. A task that throws
  yields null, as one that returns null does.
\<close>

fun processBatch ::
  "platform \<Rightarrow> config \<Rightarrow> jsstring list \<Rightarrow> crawl_state
     \<Rightarrow> (page \<times> jsstring list) option list \<times> crawl_state" where
  "processBatch P cfg [] st = ([], st)"
| "processBatch P cfg (u # us) st =
     (case processPage P cfg u st of
        (r, st1) \<Rightarrow> (case processBatch P cfg us st1 of
                       (rs, st2) \<Rightarrow> (r # rs, st2)))"

text \<open>
  The bounds that \<open>buildConfig\<close> puts on the batch size,
  \<open>Math.min(Math.max(toNumber(args.concurrency, DEFAULTS.concurrency), 1), 5)\<close>.
\<close>

definition clampConcurrency :: "nat \<Rightarrow> nat" where
  "clampConcurrency n = min (max n 1) 5"

text \<open>
  \<open>const batch = queue.splice(0, config.concurrency)\<close>: the batch, and the state with
  the batch removed from the queue.
\<close>

definition dequeueBatch :: "config \<Rightarrow> crawl_state \<Rightarrow> jsstring list \<times> crawl_state" where
  "dequeueBatch cfg st =
     (take (concurrency cfg) (queue st), st\<lparr>queue := drop (concurrency cfg) (queue st)\<rparr>)"

text \<open>
  One iteration of the loop: the batch is taken from the queue and processed, and the
  results are added. The pause between batches changes no variable.
\<close>

definition crawlIteration :: "platform \<Rightarrow> config \<Rightarrow> crawl_state \<Rightarrow> crawl_state" where
  "crawlIteration P cfg st =
     (case dequeueBatch cfg st of
        (batch, st1) \<Rightarrow>
          (case processBatch P cfg batch st1 of
             (results, st2) \<Rightarrow> fold (addResult cfg) (List.map_filter id results) st2))"

text \<open>
  \<^verbatim>\<open>
  while (queue.length > 0 && pages.length < config.maxPages) { ... }
  \<close>
  The loop need not end for every configuration (a batch of size zero leaves the
  queue as it is), so it is a partial function: \<open>None\<close> is a crawl that runs forever.
\<close>

partial_function (option) crawlLoop :: "platform \<Rightarrow> config \<Rightarrow> crawl_state \<Rightarrow> crawl_state option" where
  "crawlLoop P cfg st =
     (if length (queue st) > 0 \<and> length (pages st) < maxPages cfg
      then crawlLoop P cfg (crawlIteration P cfg st)
      else Some st)"

declare crawlLoop.simps [code]

definition initialState :: "config \<Rightarrow> crawl_state" where
  "initialState cfg =
     \<lparr>queue = seedUrls cfg, visited = [], pages = [], fetched = [], rendered = []\<rparr>"

text \<open>
  \<open>crawlSite\<close> returns \<open>{ pages }\<close>; the final state is kept whole here, for the
  statements about \<open>visited\<close>, the queue and the call logs.
\<close>

definition crawlSite :: "platform \<Rightarrow> config \<Rightarrow> crawl_state option" where
  "crawlSite P cfg = crawlLoop P cfg (initialState cfg)"

text \<open>
  The states of a crawl run at the head of the loop: the initial state, and the state
  after each iteration that the loop condition admits.
\<close>

inductive reachable :: "platform \<Rightarrow> config \<Rightarrow> crawl_state \<Rightarrow> bool" for P cfg where
  start: "reachable P cfg (initialState cfg)"
| iteration: "reachable P cfg st \<Longrightarrow> length (queue st) > 0 \<Longrightarrow> length (pages st) < maxPages cfg
     \<Longrightarrow> reachable P cfg (crawlIteration P cfg st)"

code_pred reachable .

text \<open>
  No URL occurs twice in \<open>visited\<close> or in either call log, and every URL that was
  fetched or rendered is in \<open>visited\<close>.
\<close>

definition noRepeat :: "crawl_state \<Rightarrow> bool" where
  "noRepeat st \<longleftrightarrow>
     distinct (visited st) \<and> distinct (fetched st) \<and> distinct (rendered st)
     \<and> set (fetched st) \<subseteq> set (visited st) \<and> set (rendered st) \<subseteq> set (visited st)"

section \<open>The dataset builder\<close>

text \<open>\<open>heading.replace(/[:?]+$/g, '')\<close>: the trailing colons and question marks go.\<close>

definition stripTrailingPunct :: "jsstring \<Rightarrow> jsstring" where
  "stripTrailingPunct s = rev (dropWhile (\<lambda>c. c = 0x3A \<or> c = 0x3F) (rev s))"

definition isSlugChar :: "jschar \<Rightarrow> bool" where
  "isSlugChar c \<longleftrightarrow> (0x61 \<le> c \<and> c \<le> 0x7A) \<or> (0x30 \<le> c \<and> c \<le> 0x39)"

text \<open>\<open>s.replace(/[^a-z0-9]+/g, '-')\<close>.\<close>

function dashRuns :: "jsstring \<Rightarrow> jsstring" where
  "dashRuns [] = []"
| "dashRuns (c # cs) =
     (if isSlugChar c then c # dashRuns cs
      else 0x2D # dashRuns (dropWhile (\<lambda>x. \<not> isSlugChar x) cs))"
  by pat_completeness auto
termination
  by (relation "measure length") (auto simp: less_Suc_eq_le length_dropWhile_le)

text \<open>
  \<^verbatim>\<open>
  function slugify(text) {
    return cleanText(text).toLowerCase()
      .replace(/[^a-z0-9]+/g, '-').replace(/^-+|-+$/g, '');
  }
  \<close>
\<close>

definition slugify :: "platform \<Rightarrow> jsstring \<Rightarrow> jsstring" where
  "slugify P text =
     (let d = dashRuns (toLowerCase P (cleanText text))
      in rev (dropWhile (\<lambda>c. c = 0x2D) (rev (dropWhile (\<lambda>c. c = 0x2D) d))))"

text \<open>
  The entry for the summary of a page:
  \<^verbatim>\<open>
    const question = `What does the "${page.title}" page cover on ${config.siteName}?`;
    pushFaq({ question, answer: page.summary, sourceUrl: page.url, tags: ['page-overview'] });
  \<close>
  (the quotes around the title are U+201C and U+201D).
\<close>

definition overviewEntry :: "config \<Rightarrow> page \<Rightarrow> faq" where
  "overviewEntry cfg p =
     \<lparr>question = js ''What does the '' @ [0x201C] @ title p @ [0x201D]
                  @ js '' page cover on '' @ siteName cfg @ js ''?'',
      answer = summary p,
      sourceUrl = page.url p,
      tags = [js ''page-overview'']\<rparr>"

text \<open>
  The entry for a section:
  \<^verbatim>\<open>
    const baseHeading = section.heading.replace(/[:?]+$/g, '').trim();
    const question = `What does "${baseHeading}" highlight on ${config.siteName}?`;
    pushFaq({ question, answer: section.content, sourceUrl: page.url,
              tags: ['section', slugify(baseHeading)] });
  \<close>
\<close>

definition sectionEntry :: "platform \<Rightarrow> config \<Rightarrow> page \<Rightarrow> section_ \<Rightarrow> faq" where
  "sectionEntry P cfg p s =
     (let baseHeading = trim (stripTrailingPunct (heading s))
      in \<lparr>question = js ''What does '' @ [0x201C] @ baseHeading @ [0x201D]
                       @ js '' highlight on '' @ siteName cfg @ js ''?'',
          answer = content s,
          sourceUrl = page.url p,
          tags = [js ''section'', slugify P baseHeading]\<rparr>)"

text \<open>
  \<^verbatim>\<open>
  function pushFaq(entry) {
    const key = entry.question.toLowerCase();
    if (seen.has(key)) return;
    seen.add(key);
    faqs.push({ ...entry, answer: truncate(entry.answer, 1200) });
  }
  \<close>
  on the pair of \<open>faqs\<close> and \<open>seen\<close>.
\<close>

definition pushFaq :: "platform \<Rightarrow> faq \<Rightarrow> faq list \<times> jsstring set \<Rightarrow> faq list \<times> jsstring set" where
  "pushFaq P entry st =
     (case st of (fs, seen) \<Rightarrow>
        let key = toLowerCase P (question entry)
        in if key \<in> seen then (fs, seen)
           else (fs @ [entry\<lparr>answer := truncate (answer entry) 1200\<rparr>], insert key seen))"

text \<open>The body of \<open>pages.forEach((page) => ...)\<close> in \<open>buildFaqDataset\<close>.\<close>

definition pushPage ::
  "platform \<Rightarrow> config \<Rightarrow> page \<Rightarrow> faq list \<times> jsstring set \<Rightarrow> faq list \<times> jsstring set" where
  "pushPage P cfg p st =
     fold (\<lambda>s. pushFaq P (sectionEntry P cfg p s)) (sections p)
       (if summary p \<noteq> [] then pushFaq P (overviewEntry cfg p) st else st)"

definition buildMetrics :: "faq list \<Rightarrow> page list \<Rightarrow> metrics" where
  "buildMetrics fs ps =
     \<lparr>pagesCrawled = length ps,
      sectionsExtracted = foldl (\<lambda>sum p. sum + length (sections p)) 0 ps,
      totalFaqs = length fs,
      totalWords = foldl (\<lambda>sum f. sum + countWords (answer f)) 0 fs\<rparr>"

text \<open>
  \<^verbatim>\<open>
  function buildFaqDataset(pages, config) {
    const faqs = [];
    const seen = new Set();
    pages.forEach((page) => { ... });
    const cappedFaqs = faqs.slice(0, config.maxFaqs);
    const metrics = buildMetrics(cappedFaqs, pages);
    return { generatedAt: new Date().toISOString(),
             source: { url: config.url, siteName: config.siteName },
             config: { maxPages, maxFaqs, minSectionChars },
             metrics, faqs: cappedFaqs,
             crawlReport: pages.map((page) => ({ url: page.url, title: page.title,
               sections: page.sections.length, hasSummary: Boolean(page.summary) })) };
  }
  \<close>
\<close>

definition buildFaqDataset :: "platform \<Rightarrow> page list \<Rightarrow> config \<Rightarrow> dataset" where
  "buildFaqDataset P ps cfg =
     (let allFaqs = fst (fold (pushPage P cfg) ps ([], {}));
          cappedFaqs = take (maxFaqs cfg) allFaqs
      in \<lparr>generatedAt = now P,
          source_url = config.url cfg,
          source_siteName = siteName cfg,
          config_maxPages = maxPages cfg,
          config_maxFaqs = maxFaqs cfg,
          config_minSectionChars = minSectionChars cfg,
          dataset_metrics = buildMetrics cappedFaqs ps,
          faqs = cappedFaqs,
          crawlReport = map (\<lambda>p. \<lparr>report_url = page.url p, report_title = title p,
                                   report_sections = length (sections p),
                                   report_hasSummary = (summary p \<noteq> [])\<rparr>) ps\<rparr>)"

text \<open>
  The entries that \<open>buildFaqDataset\<close> hands to \<open>pushFaq\<close>, in the order of the calls:
  for each page its overview entry, when it has a summary, then one entry for each of
  its sections.
\<close>

definition pageEntries :: "platform \<Rightarrow> config \<Rightarrow> page \<Rightarrow> faq list" where
  "pageEntries P cfg p =
     (if summary p \<noteq> [] then [overviewEntry cfg p] else [])
     @ map (sectionEntry P cfg p) (sections p)"

definition emittedEntries :: "platform \<Rightarrow> config \<Rightarrow> page list \<Rightarrow> faq list" where
  "emittedEntries P cfg ps = concat (map (pageEntries P cfg) ps)"

text \<open>
  Two functions for the statements about the builder: what \<open>pushFaq\<close> stores for an
  entry, and the entries of a list that \<open>pushFaq\<close> does not skip, given the set
  \<open>seen\<close> at the start.
\<close>

definition capAnswer :: "faq \<Rightarrow> faq" where
  "capAnswer e = e\<lparr>answer := truncate (answer e) 1200\<rparr>"

fun firstWins :: "platform \<Rightarrow> jsstring set \<Rightarrow> faq list \<Rightarrow> faq list" where
  "firstWins P seen [] = []"
| "firstWins P seen (e # es) =
     (if toLowerCase P (question e) \<in> seen then firstWins P seen es
      else e # firstWins P (insert (toLowerCase P (question e)) seen) es)"

text \<open>
  Deduplication by a key as the specification words it, first occurrence wins: the
  head of the list is kept, and no later element with the key of the head.
\<close>

function keepFirst :: "('a \<Rightarrow> 'k) \<Rightarrow> 'a list \<Rightarrow> 'a list" where
  "keepFirst key [] = []"
| "keepFirst key (x # xs) = x # keepFirst key (filter (\<lambda>y. key y \<noteq> key x) xs)"
  by pat_completeness auto
termination
  by (relation "measure (\<lambda>(key, xs). length xs)") (auto simp: less_Suc_eq_le)

section \<open>The run\<close>

text \<open>
  \<^verbatim>\<open>
  async function main() {
    try {
      const args = parseArgs(process.argv.slice(2));
      const config = buildConfig(args);
      const crawlResult = await crawlSite(config);
      if (crawlResult.pages.length === 0) {
        throw new Error('No pages were crawled successfully.');
      }
      const dataset = buildFaqDataset(crawlResult.pages, config);
      await writeOutput(config.outputPath, dataset);
      ...
    } catch (error) {
      console.error('[ERROR]', error.message);
      process.exitCode = 1;
    }
  }
  \<close>
  \<open>main\<close> is given what \<open>buildConfig(parseArgs(...))\<close> produced: the configuration, or
  the message of the error it threw. A run whose crawl never ends is \<open>None\<close>. The
  exit status of a process whose \<open>exitCode\<close> was never set is zero.
\<close>

definition main :: "platform \<Rightarrow> jsstring + config \<Rightarrow> run option" where
  "main P parsed =
     (case parsed of
        Inl msg \<Rightarrow>
          Some \<lparr>exitCode = 1, errorMessage = Some msg, built = None, written = None\<rparr>
      | Inr cfg \<Rightarrow>
          (case crawlSite P cfg of
             None \<Rightarrow> None
           | Some crawlResult \<Rightarrow>
               if length (pages crawlResult) = 0
               then Some \<lparr>exitCode = 1,
                          errorMessage = Some (js ''No pages were crawled successfully.''),
                          built = None, written = None\<rparr>
               else let ds = buildFaqDataset P (pages crawlResult) cfg
                    in (case fs_writeFile P (outputPath cfg) of
                          None \<Rightarrow> Some \<lparr>exitCode = 0, errorMessage = None,
                                          built = Some ds, written = Some ds\<rparr>
                        | Some msg \<Rightarrow> Some \<lparr>exitCode = 1, errorMessage = Some msg,
                                              built = Some ds, written = None\<rparr>)))"

section \<open>A platform for examples\<close>

text \<open>
  The statements below hold for every platform. Where an example needs a concrete
  one, it is the following: a URL parser for plain absolute URLs, ASCII case folding,
  and a site of three pages.
\<close>

definition asciiLower :: "jsstring \<Rightarrow> jsstring" where
  "asciiLower s = map (\<lambda>c. if 0x41 \<le> c \<and> c \<le> 0x5A then c + 0x20 else c) s"

definition splitAtChar :: "jschar \<Rightarrow> jsstring \<Rightarrow> jsstring \<times> jsstring option" where
  "splitAtChar c s =
     (takeWhile (\<lambda>x. x \<noteq> c) s,
      case dropWhile (\<lambda>x. x \<noteq> c) s of [] \<Rightarrow> None | x # r \<Rightarrow> Some r)"

definition isLowerLetter :: "jschar \<Rightarrow> bool" where
  "isLowerLetter c \<longleftrightarrow> 0x61 \<le> c \<and> c \<le> 0x7A"

definition isPlainChar :: "jschar \<Rightarrow> bool" where
  "isPlainChar c \<longleftrightarrow>
     (0x61 \<le> c \<and> c \<le> 0x7A) \<or> (0x41 \<le> c \<and> c \<le> 0x5A) \<or> (0x30 \<le> c \<and> c \<le> 0x39)
     \<or> c \<in> {0x2D, 0x5F, 0x7E, 0x2F}"

definition isHostText :: "jsstring \<Rightarrow> bool" where
  "isHostText h \<longleftrightarrow>
     (case h of [] \<Rightarrow> False | c # cs \<Rightarrow> isLowerLetter c)
     \<and> (case rev h of [] \<Rightarrow> False | c # cs \<Rightarrow> isLowerLetter c)
     \<and> list_all (\<lambda>c. isLowerLetter c \<or> c = 0x2E) h"

definition isPlainText :: "jsstring option \<Rightarrow> bool" where
  "isPlainText t \<longleftrightarrow>
     (case t of None \<Rightarrow> True
      | Some s \<Rightarrow> list_all (\<lambda>c. isPlainChar c \<or> c = 0x3D \<or> c = 0x26) s)"

text \<open>
  The URL parser of the URL Standard on the texts it leaves as they are: scheme
  \<open>http\<close> or \<open>https\<close> in lower case, a host of lower-case letters and dots, and a
  path, a query and a fragment of letters, digits, \<open>-\<close>, \<open>_\<close>, \<open>~\<close> and \<open>/\<close> (and \<open>=\<close>,
  \<open>&\<close> after the path). On such a text the parser only splits, and supplies the path
  \<open>/\<close> when there is none. Every other text is refused here.
\<close>

definition plainURL :: "jsstring \<Rightarrow> URL option" where
  "plainURL input =
     (case splitAtChar 0x23 input of (s1, frag) \<Rightarrow>
      case splitAtChar 0x3F s1 of (s2, qry) \<Rightarrow>
        let scheme = (if startsWith s2 (js ''https://'') then js ''https:''
                      else if startsWith s2 (js ''http://'') then js ''http:'' else []);
            rest = drop (length scheme + 2) s2;
            host = takeWhile (\<lambda>c. c \<noteq> 0x2F) rest;
            path = dropWhile (\<lambda>c. c \<noteq> 0x2F) rest
        in if scheme = [] \<or> \<not> isHostText host \<or> \<not> list_all isPlainChar path
              \<or> \<not> isPlainText qry \<or> \<not> isPlainText frag
           then None
           else Some \<lparr>prefix = scheme @ js ''//'' @ host,
                      origin = scheme @ js ''//'' @ host,
                      opaque = False,
                      pathname = (if path = [] then js ''/'' else path),
                      query = qry, fragment = frag\<rparr>)"

text \<open>
  What \<open>plainURL\<close> returns: a URL of the given scheme and host whose path begins with
  a slash and whose path, query and fragment are plain.
\<close>

definition plainParts :: "jsstring \<Rightarrow> jsstring \<Rightarrow> URL \<Rightarrow> bool" where
  "plainParts scheme host w \<longleftrightarrow>
     (scheme = js ''https:'' \<or> scheme = js ''http:'') \<and> isHostText host
     \<and> prefix w = scheme @ js ''//'' @ host \<and> URL.origin w = scheme @ js ''//'' @ host
     \<and> \<not> opaque w
     \<and> (\<exists>p. pathname w = 0x2F # p) \<and> list_all isPlainChar (pathname w)
     \<and> isPlainText (query w) \<and> isPlainText (fragment w)"

text \<open>
  \<open>new URL(raw, base)\<close> for an absolute \<open>raw\<close>, and for one that starts with a single
  slash, which replaces the path of the base.
\<close>

definition plainURL_base :: "jsstring \<Rightarrow> jsstring \<Rightarrow> URL option" where
  "plainURL_base raw base =
     (case plainURL raw of
        Some u \<Rightarrow> Some u
      | None \<Rightarrow>
          if startsWith raw (js ''/'') \<and> \<not> startsWith raw (js ''//'')
          then (case plainURL base of None \<Rightarrow> None | Some b \<Rightarrow> plainURL (prefix b @ raw))
          else None)"

text \<open>\<open>searchParams.get(name)\<close> on a query of plain \<open>name=value\<close> pairs.\<close>

fun splitOn :: "jschar \<Rightarrow> jsstring \<Rightarrow> jsstring \<Rightarrow> jsstring list" where
  "splitOn c acc [] = [rev acc]"
| "splitOn c acc (x # xs) = (if x = c then rev acc # splitOn c [] xs else splitOn c (x # acc) xs)"

definition plainSearchParam :: "URL \<Rightarrow> jsstring \<Rightarrow> jsstring option" where
  "plainSearchParam u name =
     (case query u of
        None \<Rightarrow> None
      | Some q \<Rightarrow>
          map_option snd
            (List.find (\<lambda>(k, v). k = name)
               (map (\<lambda>kv. case splitAtChar 0x3D kv of
                             (k, None) \<Rightarrow> (k, []) | (k, Some v) \<Rightarrow> (k, v))
                  (filter (\<lambda>kv. kv \<noteq> []) (splitOn 0x26 [] q)))))"

text \<open>
  The site: \<open>https://x.com/\<close> has a heading, a paragraph, a link to \<open>/about/\<close> and a
  link to another host whose name begins with the name of this one;
  \<open>https://x.com/about\<close> has one paragraph; \<open>https://x.com/plain\<close> is bare text that
  no page links to. The trees are the ones the HTML parser builds for the three texts.
\<close>

definition homeHtml :: jsstring where
  "homeHtml = js ''<h2>Our Mission</h2><p>We build tools for people.</p><a href=/about/>About</a><a href=https://x.com.evil.org/>Partner</a>''"

definition aboutHtml :: jsstring where
  "aboutHtml = js ''<p>About us: a small team.</p>''"

definition homeDoc :: "node list" where
  "homeDoc =
     [Element (js ''html'') []
        [Element (js ''head'') [] [],
         Element (js ''body'') []
           [Element (js ''h2'') [] [TextNode (js ''Our Mission'')],
            Element (js ''p'') [] [TextNode (js ''We build tools for people.'')],
            Element (js ''a'') [(js ''href'', js ''/about/'')] [TextNode (js ''About'')],
            Element (js ''a'') [(js ''href'', js ''https://x.com.evil.org/'')]
              [TextNode (js ''Partner'')]]]]"

definition plainHtml :: jsstring where
  "plainHtml = js ''Plain words only.''"

definition aboutDoc :: "node list" where
  "aboutDoc =
     [Element (js ''html'') []
        [Element (js ''head'') [] [],
         Element (js ''body'') []
           [Element (js ''p'') [] [TextNode (js ''About us: a small team.'')]]]]"

definition plainDoc :: "node list" where
  "plainDoc =
     [Element (js ''html'') []
        [Element (js ''head'') [] [],
         Element (js ''body'') [] [TextNode (js ''Plain words only.'')]]]"

definition siteX :: platform where
  "siteX =
     \<lparr>URL_new = plainURL,
      URL_new_base = plainURL_base,
      searchParams_get = plainSearchParam,
      toLowerCase = asciiLower,
      cheerio_load = (\<lambda>html. if html = homeHtml then homeDoc
                              else if html = aboutHtml then aboutDoc
                              else if html = plainHtml then plainDoc else []),
      axios_get = (\<lambda>u. if u = js ''https://x.com/''
                         then Some \<lparr>data = Some homeHtml, status = 200\<rparr>
                         else if u = js ''https://x.com/about''
                         then Some \<lparr>data = Some aboutHtml, status = 200\<rparr>
                         else if u = js ''https://x.com/plain''
                         then Some \<lparr>data = Some plainHtml, status = 200\<rparr>
                         else None),
      puppeteer_installed = False,
      browser_session = (\<lambda>u. None),
      fs_writeFile = (\<lambda>p. None),
      now = js ''2024-01-01T00:00:00.000Z''\<rparr>"

definition configX :: config where
  "configX =
     \<lparr>config.url = js ''https://x.com/'',
      config.origin = js ''https://x.com'',
      siteName = js ''X Com'',
      maxPages = 20, maxFaqs = 80, concurrency = 2, requestTimeout = 12000,
      pauseMs = 400, minSectionChars = 10, browserTimeout = 20000,
      renderWithBrowser = True,
      seedUrls = [js ''https://x.com/''],
      spaViews = [],
      userAgent = js ''Gaby-RAG-Fetcher/1.0'',
      outputPath = js ''/data/faq-dataset.json''\<rparr>"

text \<open>The three URLs of the example crawl, and the two pages it extracts.\<close>

definition homeUrl :: jsstring where "homeUrl = js ''https://x.com/''"
definition aboutUrl :: jsstring where "aboutUrl = js ''https://x.com/about''"
definition otherUrl :: jsstring where "otherUrl = js ''https://x.com.evil.org/''"

definition homePage :: page where
  "homePage =
     \<lparr>page.url = homeUrl, title = homeUrl, description = [],
      summary = js ''Our MissionWe build tools for people.AboutPartner'',
      sections = [\<lparr>heading = js ''Our Mission'',
                    content = js ''We build tools for people. About Partner'',
                    snippet = js ''We build tools for people. About Partner''\<rparr>],
      links = [aboutUrl, otherUrl],
      wordCount = 6\<rparr>"

definition aboutPage :: page where
  "aboutPage =
     \<lparr>page.url = aboutUrl, title = aboutUrl, description = [],
      summary = js ''About us: a small team.'',
      sections = [\<lparr>heading = js ''Key Insight 1'', content = js ''About us: a small team.'',
                    snippet = js ''About us: a small team.''\<rparr>],
      links = [],
      wordCount = 5\<rparr>"

text \<open>The states of the example crawl after its first and its second iteration.\<close>

definition stateX1 :: crawl_state where
  "stateX1 =
     \<lparr>queue = [aboutUrl, otherUrl], visited = [homeUrl], pages = [homePage],
      fetched = [homeUrl], rendered = []\<rparr>"

definition stateX2 :: crawl_state where
  "stateX2 =
     \<lparr>queue = [], visited = [homeUrl, aboutUrl, otherUrl], pages = [homePage, aboutPage],
      fetched = [homeUrl, aboutUrl, otherUrl], rendered = [otherUrl]\<rparr>"

text \<open>
  The same site when no request succeeds, and a configuration in which rendering is
  disabled.
\<close>

definition siteOffline :: platform where
  "siteOffline = siteX\<lparr>axios_get := (\<lambda>u. None)\<rparr>"

definition configNoRender :: config where
  "configNoRender = configX\<lparr>renderWithBrowser := False\<rparr>"

definition stateOffline :: crawl_state where
  "stateOffline =
     \<lparr>queue = [], visited = [homeUrl], pages = [], fetched = [homeUrl], rendered = []\<rparr>"

text \<open>
  A site whose start page links to one page twice, as \<open>/a///\<close> and as \<open>/a\<close>, and
  serves it under \<open>https://x.com/a/\<close> and \<open>https://x.com/a\<close>; the page that is
  extracted from the start page, and the states of the crawl after its first and its
  second iteration.
\<close>

definition slashUrl2 :: jsstring where "slashUrl2 = js ''https://x.com/a//''"
definition slashUrl1 :: jsstring where "slashUrl1 = js ''https://x.com/a/''"
definition plainUrlA :: jsstring where "plainUrlA = js ''https://x.com/a''"

definition homeHtmlA :: jsstring where
  "homeHtmlA = js ''<p>Two links to one page.</p><a href=/a///>one</a><a href=/a>two</a>''"

definition homeDocA :: "node list" where
  "homeDocA =
     [Element (js ''html'') []
        [Element (js ''head'') [] [],
         Element (js ''body'') []
           [Element (js ''p'') [] [TextNode (js ''Two links to one page.'')],
            Element (js ''a'') [(js ''href'', js ''/a///'')] [TextNode (js ''one'')],
            Element (js ''a'') [(js ''href'', js ''/a'')] [TextNode (js ''two'')]]]]"

definition siteA :: platform where
  "siteA =
     siteX\<lparr>cheerio_load := (\<lambda>html. if html = homeHtmlA then homeDocA
                                   else if html = aboutHtml then aboutDoc else []),
           axios_get := (\<lambda>u. if u = homeUrl
                               then Some \<lparr>data = Some homeHtmlA, status = 200\<rparr>
                               else if u = slashUrl1 \<or> u = plainUrlA
                               then Some \<lparr>data = Some aboutHtml, status = 200\<rparr>
                               else None)\<rparr>"

definition homePageA :: page where
  "homePageA =
     \<lparr>page.url = homeUrl, title = homeUrl, description = [],
      summary = js ''Two links to one page.onetwo'',
      sections = [\<lparr>heading = js ''Key Insight 1'', content = js ''Two links to one page.'',
                    snippet = js ''Two links to one page.''\<rparr>],
      links = [slashUrl2, plainUrlA],
      wordCount = 5\<rparr>"

definition stateA1 :: crawl_state where
  "stateA1 =
     \<lparr>queue = [slashUrl2, plainUrlA], visited = [homeUrl], pages = [homePageA],
      fetched = [homeUrl], rendered = []\<rparr>"

definition stateA2 :: crawl_state where
  "stateA2 =
     \<lparr>queue = [], visited = [homeUrl, slashUrl1, plainUrlA],
      pages = [homePageA, aboutPage\<lparr>page.url := slashUrl1, title := slashUrl1\<rparr>,
               aboutPage\<lparr>page.url := plainUrlA, title := plainUrlA\<rparr>],
      fetched = [homeUrl, slashUrl1, plainUrlA], rendered = []\<rparr>"

text \<open>The URL objects of \<open>https://x.com\<close> with a given path and fragment.\<close>

definition xcom :: "jsstring \<Rightarrow> jsstring option \<Rightarrow> URL" where
  "xcom path frag =
     \<lparr>prefix = js ''https://x.com'', URL.origin = js ''https://x.com'', opaque = False,
      pathname = path, query = None, fragment = frag\<rparr>"

text \<open>
  Pages for the examples about the builder: one with a section of 1201 characters
  (and the summary that \<open>buildSummary\<close> makes of it), and two whose titles differ in
  case only.
\<close>

definition longText :: jsstring where
  "longText = replicate 1201 0x61"

definition longPage :: page where
  "longPage =
     \<lparr>page.url = js ''https://x.com/long'', title = js ''Long'', description = [],
      summary = truncate longText 600,
      sections = [\<lparr>heading = js ''Story'', content = longText,
                    snippet = truncate longText 320\<rparr>],
      links = [], wordCount = 2\<rparr>"

definition pageHome :: page where
  "pageHome =
     \<lparr>page.url = js ''https://x.com/'', title = js ''Home'', description = [],
      summary = js ''One.'', sections = [], links = [], wordCount = 1\<rparr>"

definition pageHOME :: page where
  "pageHOME =
     \<lparr>page.url = js ''https://x.com/home'', title = js ''HOME'', description = [],
      summary = js ''Two.'', sections = [], links = [], wordCount = 1\<rparr>"

section \<open>Properties of the string helpers\<close>

text \<open>The definitions that evaluate the string functions on a given text.\<close>

lemmas str_defs = js_def startsWith_def endsWith_def trim_def trimStart_def trimEnd_def
  isWhiteSpace_def cleanText_def ellipsis_def

lemma length_trimStart: "length (trimStart s) \<le> length s"
  by (simp add: trimStart_def length_dropWhile_le)

lemma length_trimEnd: "length (trimEnd s) \<le> length s"
  using length_dropWhile_le [of isWhiteSpace "rev s"] by (simp add: trimEnd_def)

lemma length_trim: "length (trim s) \<le> length s"
  using length_trimEnd [of "trimStart s"] length_trimStart [of s]
  by (simp add: trim_def)

lemma length_ellipsis: "length ellipsis = 2"
  by (simp add: ellipsis_def)

lemma truncate_short: "length text \<le> maxLen \<Longrightarrow> truncate text maxLen = text"
  by (simp add: truncate_def)

lemma length_truncate_long:
  "maxLen < length text \<Longrightarrow> length (truncate text maxLen) \<le> maxLen + 2"
proof -
  assume long: "maxLen < length text"
  let ?s = "take maxLen text"
  let ?p = "lastIndexOf ?s 0x2E"
  have a: "length (trim (take (nat (?p + 1)) ?s)) \<le> maxLen"
    using length_trim [of "take (nat (?p + 1)) ?s"] by simp
  have b: "length (trim ?s) \<le> maxLen"
    using length_trim [of ?s] by simp
  from long have "text \<noteq> []" by auto
  with long a b show ?thesis
    by (simp add: truncate_def Let_def length_ellipsis)
qed

lemma length_truncate: "length (truncate text maxLen) \<le> maxLen + 2"
proof (cases "length text \<le> maxLen")
  case True
  then show ?thesis by (simp add: truncate_short)
next
  case False
  then have "maxLen < length text" by simp
  then show ?thesis by (rule length_truncate_long)
qed

section \<open>The render-need heuristic\<close>

text \<open>
  C1. The render-need heuristic returns true for a page exactly when the page has zero
  extracted sections and its summary is shorter than 160 characters or its word count
  is below 40. In particular it is true for every page with zero sections and a
  30-character summary, and false for every page with a 200-character summary and
  three sections.
\<close>

theorem needsBrowserRender_iff:
  "(needsBrowserRender p \<longleftrightarrow>
      length (sections p) = 0 \<and> (length (summary p) < 160 \<or> wordCount p < 40))
   \<and> (length (sections p) = 0 \<and> length (summary p) = 30 \<longrightarrow> needsBrowserRender p)
   \<and> (length (summary p) = 200 \<and> length (sections p) = 3 \<longrightarrow> \<not> needsBrowserRender p)"
  by (auto simp: needsBrowserRender_def Let_def)

theorem needsBrowserRender_iff_witness:
  "needsBrowserRender
     \<lparr>page.url = js ''https://x.com/'', title = js ''x'', description = [],
      summary = replicate 30 0x61, sections = [], links = [], wordCount = 50\<rparr>
   \<and> \<not> needsBrowserRender
     \<lparr>page.url = js ''https://x.com/'', title = js ''x'', description = [],
      summary = replicate 200 0x61,
      sections = replicate 3 \<lparr>heading = js ''h'', content = js ''c'', snippet = js ''c''\<rparr>,
      links = [], wordCount = 1\<rparr>"
  using
    needsBrowserRender_iff [of "\<lparr>page.url = js ''https://x.com/'', title = js ''x'',
      description = [], summary = replicate 30 0x61, sections = [], links = [],
      wordCount = 50\<rparr>"]
    needsBrowserRender_iff [of "\<lparr>page.url = js ''https://x.com/'', title = js ''x'',
      description = [], summary = replicate 200 0x61,
      sections = replicate 3 \<lparr>heading = js ''h'', content = js ''c'', snippet = js ''c''\<rparr>,
      links = [], wordCount = 1\<rparr>"]
  by simp

section \<open>Truncation\<close>

text \<open>
  C10. For every string and every bound \<open>max \<ge> 1\<close>: a text of length at most \<open>max\<close> is
  returned unchanged; otherwise the result has length at most \<open>maxLen + 2\<close> (the sliced
  prefix, trimmed, followed by the two-character ellipsis marker).
\<close>

theorem truncate_bound:
  "1 \<le> maxLen \<Longrightarrow>
     (length text \<le> maxLen \<longrightarrow> truncate text maxLen = text)
   \<and> (\<not> length text \<le> maxLen \<longrightarrow> length (truncate text maxLen) \<le> maxLen + 2)"
  using length_truncate [of _ maxLen] by (simp add: truncate_short)

theorem truncate_bound_witness:
  "(1::nat) \<le> 3
   \<and> truncate (js ''ab'') 3 = js ''ab''
   \<and> truncate (js ''abcdef'') 3 = js ''abc'' @ [0x20, 0x2026]
   \<and> length (truncate (js ''abcdef'') 3) \<le> 3 + 2"
  using truncate_bound [of 3 "js ''ab''"] truncate_bound [of 3 "js ''abcdef''"]
  by (simp add: truncate_def js_def trim_def trimStart_def trimEnd_def isWhiteSpace_def
      ellipsis_def)

section \<open>The dataset builder: what is kept\<close>

lemma fold_pushFaq:
  "fold (pushFaq P) es (fs, seen) =
     (fs @ map capAnswer (firstWins P seen es), seen \<union> (\<lambda>e. toLowerCase P (question e)) ` set es)"
  by (induction es arbitrary: fs seen) (auto simp: pushFaq_def Let_def capAnswer_def)

lemma pushPage_fold: "pushPage P cfg p st = fold (pushFaq P) (pageEntries P cfg p) st"
  by (simp add: pushPage_def pageEntries_def fold_map comp_def)

lemma fold_pushPage:
  "fold (pushPage P cfg) ps st = fold (pushFaq P) (emittedEntries P cfg ps) st"
  by (induction ps arbitrary: st) (simp_all add: emittedEntries_def pushPage_fold)

lemma firstWins_notin:
  "e \<in> set (firstWins P seen es) \<Longrightarrow> toLowerCase P (question e) \<notin> seen"
  by (induction es arbitrary: seen) (auto split: if_splits)

lemma firstWins_distinct:
  "distinct (map (\<lambda>e. toLowerCase P (question e)) (firstWins P seen es))"
  by (induction es arbitrary: seen) (auto dest: firstWins_notin)

lemma firstWins_find:
  "e \<in> set (firstWins P seen es) \<Longrightarrow>
   List.find (\<lambda>c. toLowerCase P (question c) = toLowerCase P (question e)) es = Some e"
proof (induction es arbitrary: seen)
  case Nil
  then show ?case by simp
next
  case (Cons x xs)
  show ?case
  proof (cases "toLowerCase P (question x) \<in> seen")
    case True
    with Cons.prems have mem: "e \<in> set (firstWins P seen xs)" by simp
    then have "toLowerCase P (question e) \<notin> seen" by (rule firstWins_notin)
    with True have "toLowerCase P (question x) \<noteq> toLowerCase P (question e)" by auto
    with Cons.IH [OF mem] show ?thesis by simp
  next
    case False
    with Cons.prems have "e = x \<or> e \<in> set (firstWins P (insert (toLowerCase P (question x)) seen) xs)"
      by simp
    then show ?thesis
    proof
      assume "e = x" then show ?thesis by simp
    next
      assume mem: "e \<in> set (firstWins P (insert (toLowerCase P (question x)) seen) xs)"
      then have "toLowerCase P (question e) \<notin> insert (toLowerCase P (question x)) seen"
        by (rule firstWins_notin)
      then have "toLowerCase P (question x) \<noteq> toLowerCase P (question e)" by auto
      with Cons.IH [OF mem] show ?thesis by simp
    qed
  qed
qed

lemma allFaqs_eq:
  "fst (fold (pushPage P cfg) ps ([], {})) = map capAnswer (firstWins P {} (emittedEntries P cfg ps))"
  by (simp add: fold_pushPage fold_pushFaq)

lemma faqs_eq:
  "faqs (buildFaqDataset P ps cfg)
     = take (maxFaqs cfg) (map capAnswer (firstWins P {} (emittedEntries P cfg ps)))"
  by (simp add: buildFaqDataset_def Let_def allFaqs_eq)

lemma question_capAnswer: "question (capAnswer e) = question e"
  by (simp add: capAnswer_def)

lemma length_answer_capAnswer: "length (answer (capAnswer e)) \<le> 1202"
  using length_truncate [of "answer e" 1200] by (simp add: capAnswer_def)

lemma lastIndexOf_replicate: "x \<noteq> c \<Longrightarrow> lastIndexOf (replicate n x) c = -1"
  by (induction n) (simp_all add: Let_def)

lemma trim_replicate: "\<not> isWhiteSpace x \<Longrightarrow> trim (replicate n x) = replicate n x"
  by (simp add: trim_def trimStart_def trimEnd_def)

lemma truncate_replicate:
  "\<not> isWhiteSpace x \<Longrightarrow> x \<noteq> 0x2E \<Longrightarrow> maxLen < n \<Longrightarrow>
   truncate (replicate n x) maxLen = replicate maxLen x @ ellipsis"
  by (simp add: truncate_def Let_def lastIndexOf_replicate trim_replicate min_def)

lemma truncate_longText:
  "truncate longText 1200 = replicate 1200 0x61 @ ellipsis"
  "truncate longText 600 = replicate 600 0x61 @ ellipsis"
  unfolding longText_def by (rule truncate_replicate; simp add: isWhiteSpace_def)+

text \<open>
  C2 as stated (every answer has at most 1200 characters) fails: for a page whose one
  section has 1201 characters, the dataset holds an answer of 1202 characters, the
  1200 that \<open>truncate\<close> keeps and the two of the marker.
\<close>

theorem faq_answer_1200_counterexample:
  "map (\<lambda>f. length (answer f)) (faqs (buildFaqDataset siteX [longPage] configX)) = [602, 1202]"
  by (simp add: faqs_eq emittedEntries_def pageEntries_def longPage_def truncate_longText
      overviewEntry_def sectionEntry_def configX_def siteX_def asciiLower_def capAnswer_def
      js_def length_ellipsis truncate_short Let_def)


text \<open>
  C2 (amended). For every list of pages and every configuration, each FAQ entry of
  the built dataset has an answer of at most 1202 characters: the 1200 characters that
  \<open>truncate\<close> keeps at most, and the two characters of the ellipsis marker.
\<close>

theorem faq_answer_bound: "\<forall>f \<in> set (faqs (buildFaqDataset P ps cfg)). length (answer f) \<le> 1202"
proof
  fix f assume "f \<in> set (faqs (buildFaqDataset P ps cfg))"
  then have "f \<in> set (map capAnswer (firstWins P {} (emittedEntries P cfg ps)))"
    unfolding faqs_eq by (rule in_set_takeD)
  then obtain e where "f = capAnswer e" by auto
  then show "length (answer f) \<le> 1202" by (simp add: length_answer_capAnswer)
qed

theorem faq_answer_bound_witness:
  "faqs (buildFaqDataset siteX [longPage] configX) \<noteq> []
   \<and> length (answer (last (faqs (buildFaqDataset siteX [longPage] configX)))) \<le> 1202"
proof -
  have "map (\<lambda>f. length (answer f)) (faqs (buildFaqDataset siteX [longPage] configX)) \<noteq> []"
    by (simp add: faqs_eq emittedEntries_def pageEntries_def longPage_def
        overviewEntry_def sectionEntry_def configX_def siteX_def asciiLower_def js_def)
  then have ne: "faqs (buildFaqDataset siteX [longPage] configX) \<noteq> []"
    by auto
  then have "last (faqs (buildFaqDataset siteX [longPage] configX))
               \<in> set (faqs (buildFaqDataset siteX [longPage] configX))"
    by (rule last_in_set)
  with faq_answer_bound [of siteX "[longPage]" configX] ne show ?thesis
    by blast
qed

lemma firstWins_keepFirst:
  "firstWins P seen es
     = keepFirst (\<lambda>c. toLowerCase P (question c))
         (filter (\<lambda>e. toLowerCase P (question e) \<notin> seen) es)"
proof (induction es arbitrary: seen)
  case Nil
  then show ?case by simp
next
  case (Cons x xs)
  have "filter (\<lambda>e. toLowerCase P (question e) \<notin> insert (toLowerCase P (question x)) seen) xs
      = filter (\<lambda>y. toLowerCase P (question y) \<noteq> toLowerCase P (question x))
          (filter (\<lambda>e. toLowerCase P (question e) \<notin> seen) xs)"
    by (auto intro: filter_cong)
  with Cons.IH show ?case by simp
qed

text \<open>
  C4. For every list of pages and every configuration, the \<open>faqs\<close> of the built dataset
  are at most \<open>maxFaqs\<close>, their questions are pairwise distinct after \<open>toLowerCase\<close>,
  and each of them is the first of the emitted entries with its lower-cased question
  (with the answer truncated). They are exactly the first \<open>maxFaqs\<close> of the emitted
  entries that remain when only the first entry of each lower-cased question is kept:
  the first entry of every question is kept, in the order of emission, up to the cap.
\<close>

theorem faqs_capped_distinct_first:
  "length (faqs (buildFaqDataset P ps cfg)) \<le> maxFaqs cfg
   \<and> distinct (map (\<lambda>f. toLowerCase P (question f)) (faqs (buildFaqDataset P ps cfg)))
   \<and> (\<forall>f \<in> set (faqs (buildFaqDataset P ps cfg)).
        \<exists>c. List.find (\<lambda>c. toLowerCase P (question c) = toLowerCase P (question f))
               (emittedEntries P cfg ps) = Some c
           \<and> f = c\<lparr>answer := truncate (answer c) 1200\<rparr>)
   \<and> faqs (buildFaqDataset P ps cfg)
       = take (maxFaqs cfg)
           (map (\<lambda>c. c\<lparr>answer := truncate (answer c) 1200\<rparr>)
              (keepFirst (\<lambda>c. toLowerCase P (question c)) (emittedEntries P cfg ps)))"
proof (intro conjI ballI)
  show "length (faqs (buildFaqDataset P ps cfg)) \<le> maxFaqs cfg"
    by (simp add: faqs_eq)
next
  let ?es = "firstWins P {} (emittedEntries P cfg ps)"
  have "map (\<lambda>f. toLowerCase P (question f)) (map capAnswer ?es)
          = map (\<lambda>f. toLowerCase P (question f)) ?es"
    by (simp add: comp_def question_capAnswer)
  then have "distinct (map (\<lambda>f. toLowerCase P (question f)) (map capAnswer ?es))"
    by (simp only: firstWins_distinct)
  then show "distinct (map (\<lambda>f. toLowerCase P (question f)) (faqs (buildFaqDataset P ps cfg)))"
    unfolding faqs_eq take_map [symmetric] by (metis distinct_take take_map)
next
  fix f assume "f \<in> set (faqs (buildFaqDataset P ps cfg))"
  then have "f \<in> set (map capAnswer (firstWins P {} (emittedEntries P cfg ps)))"
    unfolding faqs_eq by (rule in_set_takeD)
  then obtain e where e: "e \<in> set (firstWins P {} (emittedEntries P cfg ps))" and f: "f = capAnswer e"
    by auto
  from firstWins_find [OF e] f
  show "\<exists>c. List.find (\<lambda>c. toLowerCase P (question c) = toLowerCase P (question f))
               (emittedEntries P cfg ps) = Some c
           \<and> f = c\<lparr>answer := truncate (answer c) 1200\<rparr>"
    by (simp add: question_capAnswer) (simp add: capAnswer_def)
next
  have "capAnswer = (\<lambda>c. c\<lparr>answer := truncate (answer c) 1200\<rparr>)"
    by (simp add: capAnswer_def fun_eq_iff)
  then show "faqs (buildFaqDataset P ps cfg)
       = take (maxFaqs cfg)
           (map (\<lambda>c. c\<lparr>answer := truncate (answer c) 1200\<rparr>)
              (keepFirst (\<lambda>c. toLowerCase P (question c)) (emittedEntries P cfg ps)))"
    by (simp add: faqs_eq firstWins_keepFirst)
qed

lemma emitted_home:
  "emittedEntries siteX configX [pageHome, pageHOME]
     = [overviewEntry configX pageHome, overviewEntry configX pageHOME]"
  by (simp add: emittedEntries_def pageEntries_def pageHome_def pageHOME_def js_def)

lemma faqs_home:
  "faqs (buildFaqDataset siteX [pageHome, pageHOME] configX) = [overviewEntry configX pageHome]"
  by (simp add: faqs_eq emitted_home capAnswer_def truncate_short)
     (simp add: overviewEntry_def pageHome_def pageHOME_def configX_def siteX_def
        asciiLower_def js_def truncate_short)

lemma keep_home:
  "keepFirst (\<lambda>c. toLowerCase siteX (question c))
     [overviewEntry configX pageHome, overviewEntry configX pageHOME]
   = [overviewEntry configX pageHome]"
  by (simp add: overviewEntry_def pageHome_def pageHOME_def configX_def siteX_def
        asciiLower_def js_def)

theorem faqs_capped_distinct_first_witness:
  "faqs (buildFaqDataset siteX [pageHome, pageHOME] configX) = [overviewEntry configX pageHome]
   \<and> length (faqs (buildFaqDataset siteX [pageHome, pageHOME] configX)) \<le> maxFaqs configX
   \<and> List.find (\<lambda>c. toLowerCase siteX (question c)
                          = toLowerCase siteX (question (overviewEntry configX pageHome)))
         (emittedEntries siteX configX [pageHome, pageHOME])
       = Some (overviewEntry configX pageHome)
   \<and> keepFirst (\<lambda>c. toLowerCase siteX (question c))
         (emittedEntries siteX configX [pageHome, pageHOME])
       = [overviewEntry configX pageHome]"
proof -
  from faqs_capped_distinct_first [of siteX "[pageHome, pageHOME]" configX]
  have l: "length (faqs (buildFaqDataset siteX [pageHome, pageHOME] configX)) \<le> maxFaqs configX"
    by (rule conjunct1)
  have f: "List.find (\<lambda>c. toLowerCase siteX (question c)
                          = toLowerCase siteX (question (overviewEntry configX pageHome)))
         (emittedEntries siteX configX [pageHome, pageHOME])
       = Some (overviewEntry configX pageHome)"
    unfolding emitted_home by simp
  have k: "keepFirst (\<lambda>c. toLowerCase siteX (question c))
         (emittedEntries siteX configX [pageHome, pageHOME])
       = [overviewEntry configX pageHome]"
    unfolding emitted_home by (rule keep_home)
  show ?thesis
    by (intro conjI faqs_home l f k)
qed

section \<open>Extracted sections\<close>

lemma headingSection_inv:
  "\<forall>s \<in> set acc. m \<le> length (content s) \<Longrightarrow>
   \<forall>s \<in> set (headingSection m acc x). m \<le> length (content s)"
  by (cases x) (auto simp: headingSection_def Let_def)

lemma paragraphSection_inv:
  "\<forall>s \<in> set acc. m \<le> length (content s) \<Longrightarrow>
   \<forall>s \<in> set (paragraphSection m acc x). m \<le> length (content s)"
  by (cases x) (auto simp: paragraphSection_def Let_def)

lemma foldl_headingSection_inv:
  "\<forall>s \<in> set acc. m \<le> length (content s) \<Longrightarrow>
   \<forall>s \<in> set (foldl (headingSection m) acc xs). m \<le> length (content s)"
proof (induction xs arbitrary: acc)
  case Nil
  then show ?case by simp
next
  case (Cons x xs)
  from Cons.prems have "\<forall>s \<in> set (headingSection m acc x). m \<le> length (content s)"
    by (rule headingSection_inv)
  then show ?case using Cons.IH by simp
qed

lemma foldl_paragraphSection_inv:
  "\<forall>s \<in> set acc. m \<le> length (content s) \<Longrightarrow>
   \<forall>s \<in> set (foldl (paragraphSection m) acc xs). m \<le> length (content s)"
proof (induction xs arbitrary: acc)
  case Nil
  then show ?case by simp
next
  case (Cons x xs)
  from Cons.prems have "\<forall>s \<in> set (paragraphSection m acc x). m \<le> length (content s)"
    by (rule paragraphSection_inv)
  then show ?case using Cons.IH by simp
qed

lemma extractSections_min:
  "\<forall>s \<in> set (extractSections doc m). m \<le> length (content s)"
proof -
  let ?s1 = "foldl (headingSection m) [] (select [js ''h1'', js ''h2'', js ''h3''] doc)"
  have h: "\<forall>s \<in> set ?s1. m \<le> length (content s)"
    by (rule foldl_headingSection_inv) simp
  have p: "\<forall>s \<in> set (foldl (paragraphSection m) ?s1 xs). m \<le> length (content s)" for xs
    using h by (rule foldl_paragraphSection_inv)
  show ?thesis
    using h p by (auto simp: extractSections_def Let_def)
qed

lemma sections_home:
  "extractSections homeDoc 10 =
     [\<lparr>heading = js ''Our Mission'', content = js ''We build tools for people. About Partner'',
       snippet = js ''We build tools for people. About Partner''\<rparr>]"
  by (simp add: extractSections_def homeDoc_def select_def headingSection_def str_defs
       isHeadingName_def truncate_def Let_def)

lemma showNat_1: "showNat (Suc 0) = [0x31]"
  by (simp add: showNat.simps)

lemma sections_about:
  "extractSections aboutDoc 10 =
     [\<lparr>heading = js ''Key Insight 1'', content = js ''About us: a small team.'',
       snippet = js ''About us: a small team.''\<rparr>]"
  by (simp add: extractSections_def aboutDoc_def select_def headingSection_def
       paragraphSection_def str_defs showNat_1
       isHeadingName_def truncate_def Let_def)

lemma sections_overview:
  "extractSections plainDoc 10 =
     [\<lparr>heading = js ''Site Overview'', content = js ''Plain words only.'',
       snippet = js ''Plain words only.''\<rparr>]"
  by (simp add: extractSections_def plainDoc_def select_def headingSection_def
       paragraphSection_def str_defs textOfAll_def
       isHeadingName_def truncate_def Let_def)


lemma load_siteX:
  "cheerio_load siteX homeHtml = homeDoc"
  "cheerio_load siteX aboutHtml = aboutDoc"
  "cheerio_load siteX plainHtml = plainDoc"
  by (simp_all add: siteX_def homeHtml_def aboutHtml_def plainHtml_def js_def)

text \<open>
  C6. For every HTML document, URL and minimum length, every section of the page that
  the extractor returns has a content of at least \<open>minSectionChars\<close> characters,
  whichever of the three scans produced it.
\<close>

theorem sections_min_length:
  "\<forall>s \<in> set (sections (extractPageContent P html u cfg)).
     minSectionChars cfg \<le> length (content s)"
  by (simp add: extractPageContent_def Let_def extractSections_min)

theorem sections_min_length_witness:
  "sections (extractPageContent siteX homeHtml (js ''https://x.com/'') configX)
     = [\<lparr>heading = js ''Our Mission'',
         content = js ''We build tools for people. About Partner'',
         snippet = js ''We build tools for people. About Partner''\<rparr>]
   \<and> sections (extractPageContent siteX aboutHtml (js ''https://x.com/about'') configX)
     = [\<lparr>heading = js ''Key Insight 1'', content = js ''About us: a small team.'',
         snippet = js ''About us: a small team.''\<rparr>]
   \<and> sections (extractPageContent siteX plainHtml (js ''https://x.com/plain'') configX)
     = [\<lparr>heading = js ''Site Overview'', content = js ''Plain words only.'',
         snippet = js ''Plain words only.''\<rparr>]
   \<and> minSectionChars configX \<le> length (js ''We build tools for people. About Partner'')
   \<and> minSectionChars configX \<le> length (js ''About us: a small team.'')
   \<and> minSectionChars configX \<le> length (js ''Plain words only.'')"
  using
    sections_min_length [of siteX homeHtml "js ''https://x.com/''" configX]
    sections_min_length [of siteX aboutHtml "js ''https://x.com/about''" configX]
    sections_min_length [of siteX plainHtml "js ''https://x.com/plain''" configX]
  by (simp add: extractPageContent_def load_siteX Let_def sections_home sections_about
      sections_overview configX_def)

section \<open>The crawl loop: invariants and termination\<close>

lemma processPage_skip:
  "normalizeUrl P u = Some n \<Longrightarrow> n \<in> set (visited st) \<Longrightarrow> processPage P cfg u st = (None, st)"
  by (simp add: processPage_def)

lemma processPage_unparsed:
  "normalizeUrl P u = None \<Longrightarrow> processPage P cfg u st = (None, st)"
  by (simp add: processPage_def)

lemma processPage_state:
  assumes "processPage P cfg u st = (r, st')"
  shows "st' = st \<or>
         (\<exists>n. n \<notin> set (visited st) \<and> normalizeUrl P u = Some n
            \<and> visited st' = visited st @ [n]
            \<and> (fetched st' = fetched st \<or> fetched st' = fetched st @ [n])
            \<and> (rendered st' = rendered st \<or> rendered st' = rendered st @ [n])
            \<and> queue st' = queue st \<and> pages st' = pages st)"
proof (cases "normalizeUrl P u")
  case None
  with assms show ?thesis by (simp add: processPage_def)
next
  case (Some n)
  show ?thesis
  proof (cases "n = [] \<or> n \<in> set (visited st)")
    case True
    with Some assms show ?thesis by (auto simp: processPage_def)
  next
    case False
    with Some assms show ?thesis
      by (auto simp: processPage_def Let_def split: option.splits if_splits prod.splits)
  qed
qed

lemma processPage_noRepeat:
  assumes "processPage P cfg u st = (r, st')" and "noRepeat st"
  shows "noRepeat st'"
  using processPage_state [OF assms(1)] assms(2)
  by (auto simp: noRepeat_def)

lemma processPage_frame:
  assumes "processPage P cfg u st = (r, st')"
  shows "queue st' = queue st \<and> pages st' = pages st \<and> set (visited st) \<subseteq> set (visited st')"
  using processPage_state [OF assms] by auto

lemma processBatch_noRepeat:
  "processBatch P cfg us st = (rs, st') \<Longrightarrow> noRepeat st \<Longrightarrow> noRepeat st'"
proof (induction us arbitrary: st rs st')
  case Nil
  then show ?case by simp
next
  case (Cons u us)
  obtain r st1 where p: "processPage P cfg u st = (r, st1)" by (cases "processPage P cfg u st")
  obtain rs2 st2 where b: "processBatch P cfg us st1 = (rs2, st2)"
    by (cases "processBatch P cfg us st1")
  from Cons.prems(1) p b have "st' = st2" by simp
  moreover from p Cons.prems(2) have "noRepeat st1" by (rule processPage_noRepeat)
  ultimately show ?case using Cons.IH [OF b] by simp
qed

lemma processBatch_frame:
  "processBatch P cfg us st = (rs, st') \<Longrightarrow>
     queue st' = queue st \<and> pages st' = pages st \<and> set (visited st) \<subseteq> set (visited st')"
proof (induction us arbitrary: st rs st')
  case Nil
  then show ?case by simp
next
  case (Cons u us)
  obtain r st1 where p: "processPage P cfg u st = (r, st1)" by (cases "processPage P cfg u st")
  obtain rs2 st2 where b: "processBatch P cfg us st1 = (rs2, st2)"
    by (cases "processBatch P cfg us st1")
  from Cons.prems(1) p b have "st' = st2" by simp
  with processPage_frame [OF p] Cons.IH [OF b] show ?case by auto
qed

lemma enqueueLink_frame:
  "visited (enqueueLink cfg l st) = visited st \<and> fetched (enqueueLink cfg l st) = fetched st
   \<and> rendered (enqueueLink cfg l st) = rendered st \<and> pages (enqueueLink cfg l st) = pages st"
  by (simp add: enqueueLink_def)

lemma fold_enqueueLink_frame:
  "visited (fold (enqueueLink cfg) ls st) = visited st
   \<and> fetched (fold (enqueueLink cfg) ls st) = fetched st
   \<and> rendered (fold (enqueueLink cfg) ls st) = rendered st
   \<and> pages (fold (enqueueLink cfg) ls st) = pages st"
  by (induction ls arbitrary: st) (simp_all add: enqueueLink_frame)

lemma addResult_frame:
  "visited (addResult cfg r st) = visited st \<and> fetched (addResult cfg r st) = fetched st
   \<and> rendered (addResult cfg r st) = rendered st
   \<and> pages (addResult cfg r st) = pages st @ [fst r]"
  by (cases r) (simp add: addResult_def fold_enqueueLink_frame)

lemma fold_addResult_frame:
  "visited (fold (addResult cfg) rs st) = visited st
   \<and> fetched (fold (addResult cfg) rs st) = fetched st
   \<and> rendered (fold (addResult cfg) rs st) = rendered st
   \<and> pages (fold (addResult cfg) rs st) = pages st @ map fst rs"
  by (induction rs arbitrary: st) (simp_all add: addResult_frame)

lemma crawlIteration_eq:
  "processBatch P cfg (fst (dequeueBatch cfg st)) (snd (dequeueBatch cfg st)) = (rs, st2) \<Longrightarrow>
   crawlIteration P cfg st = fold (addResult cfg) (List.map_filter id rs) st2"
  by (cases "dequeueBatch cfg st") (simp add: crawlIteration_def)

lemma crawlIteration_noRepeat:
  assumes "noRepeat st"
  shows "noRepeat (crawlIteration P cfg st)"
proof -
  let ?st1 = "snd (dequeueBatch cfg st)"
  obtain rs st2 where b: "processBatch P cfg (fst (dequeueBatch cfg st)) ?st1 = (rs, st2)"
    by (cases "processBatch P cfg (fst (dequeueBatch cfg st)) ?st1")
  from assms have "noRepeat ?st1" by (simp add: noRepeat_def dequeueBatch_def)
  with b have "noRepeat st2" by (rule processBatch_noRepeat)
  then have "noRepeat (fold (addResult cfg) (List.map_filter id rs) st2)"
    by (simp add: noRepeat_def fold_addResult_frame)
  with b show ?thesis by (simp add: crawlIteration_eq)
qed

lemma reachable_noRepeat: "reachable P cfg st \<Longrightarrow> noRepeat st"
proof (induction rule: reachable.induct)
  case start
  show ?case by (simp add: noRepeat_def initialState_def)
next
  case (iteration st)
  then show ?case by (simp add: crawlIteration_noRepeat)
qed

lemma crawlLoop_reachable_aux:
  assumes "crawlLoop P cfg st = Some st'"
  shows "reachable P cfg st \<longrightarrow> reachable P cfg st'"
proof -
  have "(\<lambda>x y. reachable (fst (fst x)) (snd (fst x)) (snd x)
            \<longrightarrow> reachable (fst (fst x)) (snd (fst x)) y) ((P, cfg), st) st'"
  proof (rule crawlLoop.raw_induct [OF _ assms])
    fix loop :: "platform \<Rightarrow> config \<Rightarrow> crawl_state \<Rightarrow> crawl_state option"
    fix P' cfg' s y
    assume IH: "\<And>P cfg st y. loop P cfg st = Some y \<Longrightarrow>
        reachable (fst (fst ((P, cfg), st))) (snd (fst ((P, cfg), st))) (snd ((P, cfg), st))
          \<longrightarrow> reachable (fst (fst ((P, cfg), st))) (snd (fst ((P, cfg), st))) y"
    assume eq: "(if 0 < length (queue s) \<and> length (pages s) < maxPages cfg'
                 then loop P' cfg' (crawlIteration P' cfg' s) else Some s) = Some y"
    show "reachable (fst (fst ((P', cfg'), s))) (snd (fst ((P', cfg'), s))) (snd ((P', cfg'), s))
          \<longrightarrow> reachable (fst (fst ((P', cfg'), s))) (snd (fst ((P', cfg'), s))) y"
    proof (cases "0 < length (queue s) \<and> length (pages s) < maxPages cfg'")
      case True
      with eq have "loop P' cfg' (crawlIteration P' cfg' s) = Some y" by simp
      from IH [OF this] True show ?thesis by (simp add: reachable.iteration)
    next
      case False
      with eq show ?thesis by (auto split: if_splits)
    qed
  qed
  then show ?thesis by simp
qed

lemma crawlSite_reachable: "crawlSite P cfg = Some st \<Longrightarrow> reachable P cfg st"
  using crawlLoop_reachable_aux [of P cfg "initialState cfg" st]
  by (simp add: crawlSite_def reachable.start)


lemma clampConcurrency_range: "1 \<le> clampConcurrency n \<and> clampConcurrency n \<le> 5"
  by (simp add: clampConcurrency_def)




section \<open>The example crawl\<close>

lemmas url_defs = plainURL_def plainURL_base_def splitAtChar_def isHostText_def isPlainChar_def
  isLowerLetter_def isPlainText_def normalizeUrl_def stripUrl_def set_hash_empty_def
  set_pathname_def toString_def

lemma normalize_siteX:
  "normalizeUrl siteX homeUrl = Some homeUrl"
  "normalizeUrl siteX aboutUrl = Some aboutUrl"
  "normalizeUrl siteX otherUrl = Some otherUrl"
  by (simp_all add: siteX_def homeUrl_def aboutUrl_def otherUrl_def url_defs str_defs Let_def)

lemma spaView_siteX:
  "getSpaViewId siteX homeUrl = None"
  "getSpaViewId siteX aboutUrl = None"
  "getSpaViewId siteX otherUrl = None"
  by (simp_all add: getSpaViewId_def plainSearchParam_def siteX_def homeUrl_def aboutUrl_def
      otherUrl_def url_defs str_defs Let_def)

lemma links_home: "extractLinks siteX homeDoc homeUrl = [aboutUrl, otherUrl]"
  by (simp add: extractLinks_def homeDoc_def select_def List.map_filter_def addLink_def
      siteX_def homeUrl_def aboutUrl_def otherUrl_def url_defs str_defs Let_def)

lemma links_about: "extractLinks siteX aboutDoc aboutUrl = []"
  by (simp add: extractLinks_def aboutDoc_def select_def List.map_filter_def js_def)

lemma sections_siteX:
  "extractSections homeDoc 10 = sections homePage"
  "extractSections aboutDoc 10 = sections aboutPage"
  by (simp_all add: sections_home sections_about homePage_def aboutPage_def)

lemma summary_home: "buildSummary homeDoc (sections homePage) = summary homePage"
  by (simp add: homePage_def buildSummary_def homeDoc_def textOfAll_def select_def str_defs
      truncate_def Let_def)

lemma summary_about: "buildSummary aboutDoc (sections aboutPage) = summary aboutPage"
  by (simp add: aboutPage_def buildSummary_def aboutDoc_def textOfAll_def select_def str_defs
      truncate_def Let_def)

lemma words_siteX:
  "countWords (summary homePage) = 6"
  "countWords (summary aboutPage) = 5"
  "summary homePage \<noteq> []"
  "summary aboutPage \<noteq> []"
  by (simp_all add: homePage_def aboutPage_def countWords_def str_defs)

lemma title_siteX:
  "cleanText (textOfFirst [js ''title''] homeDoc) = []"
  "cleanText (textOfFirst [js ''title''] aboutDoc) = []"
  "cleanText (metaDescription homeDoc) = []"
  "cleanText (metaDescription aboutDoc) = []"
  by (simp_all add: textOfFirst_def metaDescription_def homeDoc_def aboutDoc_def select_def
      str_defs)

lemma extract_home: "extractPageContent siteX homeHtml homeUrl configX = homePage"
proof -
  have m: "minSectionChars configX = 10" by (simp add: configX_def)
  show ?thesis
    unfolding extractPageContent_def Let_def load_siteX title_siteX m sections_siteX
      summary_home links_home
    by (simp add: words_siteX) (simp add: homePage_def)
qed

lemma extract_about: "extractPageContent siteX aboutHtml aboutUrl configX = aboutPage"
proof -
  have m: "minSectionChars configX = 10" by (simp add: configX_def)
  show ?thesis
    unfolding extractPageContent_def Let_def load_siteX title_siteX m sections_siteX
      summary_about links_about
    by (simp add: words_siteX) (simp add: aboutPage_def)
qed


lemma urls_distinct:
  "homeUrl \<noteq> aboutUrl" "homeUrl \<noteq> otherUrl" "aboutUrl \<noteq> otherUrl"
  "aboutUrl \<noteq> homeUrl" "otherUrl \<noteq> homeUrl" "otherUrl \<noteq> aboutUrl"
  "homeUrl \<noteq> []" "aboutUrl \<noteq> []" "otherUrl \<noteq> []"
  by (simp_all add: homeUrl_def aboutUrl_def otherUrl_def js_def)

lemma fetch_siteX:
  "fetchHtml siteX homeUrl = Some (homeHtml, 200)"
  "fetchHtml siteX aboutUrl = Some (aboutHtml, 200)"
  "fetchHtml siteX otherUrl = None"
  "fetchRenderedHtml siteX u = None"
  "homeHtml \<noteq> []" "aboutHtml \<noteq> []"
  by (simp_all add: fetchHtml_def fetchRenderedHtml_def siteX_def homeUrl_def aboutUrl_def
      otherUrl_def homeHtml_def aboutHtml_def js_def)

lemma render_siteX:
  "\<not> needsBrowserRender homePage" "\<not> needsBrowserRender aboutPage"
  "renderWithBrowser configX" "links homePage = [aboutUrl, otherUrl]" "links aboutPage = []"
  by (simp_all add: needsBrowserRender_def homePage_def aboutPage_def configX_def)

lemma process_home:
  "homeUrl \<notin> set (visited st) \<Longrightarrow>
   processPage siteX configX homeUrl st
     = (Some (homePage, [aboutUrl, otherUrl]),
        st\<lparr>visited := visited st @ [homeUrl], fetched := fetched st @ [homeUrl]\<rparr>)"
  by (simp add: processPage_def normalize_siteX spaView_siteX urls_distinct fetch_siteX
      extract_home render_siteX)

lemma process_about:
  "aboutUrl \<notin> set (visited st) \<Longrightarrow>
   processPage siteX configX aboutUrl st
     = (Some (aboutPage, []),
        st\<lparr>visited := visited st @ [aboutUrl], fetched := fetched st @ [aboutUrl]\<rparr>)"
  by (simp add: processPage_def normalize_siteX spaView_siteX urls_distinct fetch_siteX
      extract_about render_siteX)

lemma process_other:
  "otherUrl \<notin> set (visited st) \<Longrightarrow>
   processPage siteX configX otherUrl st
     = (None,
        st\<lparr>visited := visited st @ [otherUrl], fetched := fetched st @ [otherUrl],
           rendered := rendered st @ [otherUrl]\<rparr>)"
  by (simp add: processPage_def normalize_siteX spaView_siteX urls_distinct fetch_siteX
      render_siteX)

lemma configX_simps:
  "concurrency configX = 2" "maxPages configX = 20" "config.origin configX = js ''https://x.com''"
  "initialState configX =
     \<lparr>queue = [homeUrl], visited = [], pages = [], fetched = [], rendered = []\<rparr>"
  by (simp_all add: configX_def initialState_def homeUrl_def)

lemma startsWith_origin:
  "startsWith aboutUrl (js ''https://x.com'')" "startsWith otherUrl (js ''https://x.com'')"
  by (simp_all add: startsWith_def aboutUrl_def otherUrl_def js_def)

lemma iteration1: "crawlIteration siteX configX (initialState configX) = stateX1"
  by (simp add: crawlIteration_def dequeueBatch_def configX_simps process_home
      List.map_filter_def addResult_def enqueueLink_def urls_distinct startsWith_origin
      stateX1_def)

lemma iteration2: "crawlIteration siteX configX stateX1 = stateX2"
  by (simp add: crawlIteration_def dequeueBatch_def configX_simps process_about process_other
      List.map_filter_def addResult_def enqueueLink_def urls_distinct startsWith_origin
      stateX1_def stateX2_def)

lemma crawl_siteX: "crawlSite siteX configX = Some stateX2"
proof -
  have "crawlLoop siteX configX stateX2 = Some stateX2"
    by (subst crawlLoop.simps) (simp add: stateX2_def)
  then have "crawlLoop siteX configX stateX1 = Some stateX2"
    by (subst crawlLoop.simps) (simp add: iteration2, simp add: stateX1_def configX_simps)
  then have "crawlLoop siteX configX (initialState configX) = Some stateX2"
    by (subst crawlLoop.simps) (simp add: iteration1, simp add: configX_simps)
  then show ?thesis by (simp add: crawlSite_def)
qed


section \<open>The crawl with no page\<close>

lemma normalizeUrl_axios: "normalizeUrl (P\<lparr>axios_get := f\<rparr>) u = normalizeUrl P u"
  by (simp add: normalizeUrl_def)

lemma getSpaViewId_axios: "getSpaViewId (P\<lparr>axios_get := f\<rparr>) u = getSpaViewId P u"
  by (simp add: getSpaViewId_def split: option.splits)

lemma process_offline:
  "homeUrl \<notin> set (visited st) \<Longrightarrow>
   processPage siteOffline configNoRender homeUrl st
     = (None, st\<lparr>visited := visited st @ [homeUrl], fetched := fetched st @ [homeUrl]\<rparr>)"
  by (simp add: processPage_def siteOffline_def normalizeUrl_axios getSpaViewId_axios
      normalize_siteX spaView_siteX urls_distinct fetchHtml_def configNoRender_def)

lemma crawl_offline: "crawlSite siteOffline configNoRender = Some stateOffline"
proof -
  have i: "initialState configNoRender
             = \<lparr>queue = [homeUrl], visited = [], pages = [], fetched = [], rendered = []\<rparr>"
    by (simp add: configNoRender_def initialState_def configX_def homeUrl_def)
  have c: "concurrency configNoRender = 2" "maxPages configNoRender = 20"
    by (simp_all add: configNoRender_def configX_def)
  have it: "crawlIteration siteOffline configNoRender (initialState configNoRender) = stateOffline"
    by (simp add: i crawlIteration_def dequeueBatch_def c process_offline List.map_filter_def
        stateOffline_def)
  have "crawlLoop siteOffline configNoRender stateOffline = Some stateOffline"
    by (subst crawlLoop.simps) (simp add: stateOffline_def)
  then have "crawlLoop siteOffline configNoRender (initialState configNoRender) = Some stateOffline"
    by (subst crawlLoop.simps) (simp add: it, simp add: i c)
  then show ?thesis by (simp add: crawlSite_def)
qed

text \<open>
  C8. If the crawl produces zero pages, the run fails with the error of an empty crawl
  before the dataset is built: nothing is written and the exit status is 1. A dataset
  is built, and the output written, only in a run whose crawl returned at least one
  page.
\<close>

theorem empty_crawl_fatal:
  "(crawlSite P cfg = Some st \<and> pages st = [] \<longrightarrow>
      main P (Inr cfg)
        = Some \<lparr>exitCode = 1,
                errorMessage = Some (js ''No pages were crawled successfully.''),
                built = None, written = None\<rparr>)
   \<and> (main P parsed = Some r \<and> (built r \<noteq> None \<or> written r \<noteq> None) \<longrightarrow>
        (\<exists>cfg st. parsed = Inr cfg \<and> crawlSite P cfg = Some st \<and> pages st \<noteq> []))"
  by (auto simp: main_def Let_def split: sum.splits option.splits if_splits)

theorem empty_crawl_fatal_witness:
  "crawlSite siteOffline configNoRender = Some stateOffline \<and> pages stateOffline = []
   \<and> main siteOffline (Inr configNoRender)
        = Some \<lparr>exitCode = 1,
                errorMessage = Some (js ''No pages were crawled successfully.''),
                built = None, written = None\<rparr>
   \<and> main siteX (Inr configX)
        = Some \<lparr>exitCode = 0, errorMessage = None,
                built = Some (buildFaqDataset siteX [homePage, aboutPage] configX),
                written = Some (buildFaqDataset siteX [homePage, aboutPage] configX)\<rparr>
   \<and> crawlSite siteX configX = Some stateX2 \<and> pages stateX2 \<noteq> []"
proof -
  have m: "main siteX (Inr configX)
        = Some \<lparr>exitCode = 0, errorMessage = None,
                built = Some (buildFaqDataset siteX [homePage, aboutPage] configX),
                written = Some (buildFaqDataset siteX [homePage, aboutPage] configX)\<rparr>"
    by (simp add: main_def crawl_siteX Let_def) (simp add: stateX2_def siteX_def)
  have p: "pages stateOffline = []" "pages stateX2 \<noteq> []"
    by (simp_all add: stateOffline_def stateX2_def)
  from empty_crawl_fatal [of siteOffline configNoRender stateOffline]
    empty_crawl_fatal [of siteX configX stateX2 "Inr configX"
      "\<lparr>exitCode = 0, errorMessage = None,
                built = Some (buildFaqDataset siteX [homePage, aboutPage] configX),
                written = Some (buildFaqDataset siteX [homePage, aboutPage] configX)\<rparr>"]
    crawl_offline crawl_siteX m p
  show ?thesis by simp
qed

section \<open>Links that enter the queue\<close>

text \<open>
  What the test in \<open>crawlSite\<close> gives: a link that enters the queue starts with the text
  of the configured origin.
\<close>

lemma enqueueLink_prefix:
  "l \<in> set (queue (enqueueLink cfg link st)) \<Longrightarrow>
   l \<in> set (queue st) \<or> (l = link \<and> startsWith link (config.origin cfg))"
  by (auto simp: enqueueLink_def split: if_splits)

text \<open>
  C3. The specification says that a link enters the queue only if it is same-origin
  with the start URL. The code tests \<open>link.startsWith(config.origin)\<close>, and a URL of another
  host whose name begins with the name of the start host passes this test. In the
  example crawl the origin is \<open>https://x.com\<close>, the first page links to
  \<open>https://x.com.evil.org/\<close>, whose origin is \<open>https://x.com.evil.org\<close>, and the link is
  put on the queue and fetched in the next batch.
\<close>

theorem other_origin_enqueued:
  "URL_new siteX (js ''https://x.com.evil.org/'')
     = Some \<lparr>prefix = js ''https://x.com.evil.org'', URL.origin = js ''https://x.com.evil.org'',
             opaque = False, pathname = js ''/'', query = None, fragment = None\<rparr>
   \<and> config.origin configX = js ''https://x.com''
   \<and> links homePage = [js ''https://x.com/about'', js ''https://x.com.evil.org/'']
   \<and> queue (crawlIteration siteX configX (initialState configX))
       = [js ''https://x.com/about'', js ''https://x.com.evil.org/'']
   \<and> js ''https://x.com.evil.org/'' \<in> set (fetched stateX2)"
proof -
  have a: "URL_new siteX (js ''https://x.com.evil.org/'')
     = Some \<lparr>prefix = js ''https://x.com.evil.org'', URL.origin = js ''https://x.com.evil.org'',
             opaque = False, pathname = js ''/'', query = None, fragment = None\<rparr>"
    by (simp add: siteX_def url_defs str_defs Let_def)
  have b: "config.origin configX = js ''https://x.com''"
    by (simp add: configX_simps)
  have c: "links homePage = [js ''https://x.com/about'', js ''https://x.com.evil.org/'']"
    by (simp add: homePage_def aboutUrl_def otherUrl_def)
  have d: "queue (crawlIteration siteX configX (initialState configX))
       = [js ''https://x.com/about'', js ''https://x.com.evil.org/'']"
    by (simp add: iteration1 stateX1_def aboutUrl_def otherUrl_def)
  have e: "js ''https://x.com.evil.org/'' \<in> set (fetched stateX2)"
    by (simp add: stateX2_def otherUrl_def)
  show ?thesis
    by (intro conjI a b c d e)
qed

section \<open>Termination of the crawl\<close>



section \<open>No URL is processed twice\<close>

lemma crawlIteration_visited:
  "set (visited st) \<subseteq> set (visited (crawlIteration P cfg st))"
proof -
  obtain rs st2 where
    b: "processBatch P cfg (fst (dequeueBatch cfg st)) (snd (dequeueBatch cfg st)) = (rs, st2)"
    by (cases "processBatch P cfg (fst (dequeueBatch cfg st)) (snd (dequeueBatch cfg st))")
  from processBatch_frame [OF b] have "set (visited st) \<subseteq> set (visited st2)"
    by (simp add: dequeueBatch_def)
  then show ?thesis by (simp add: crawlIteration_eq [OF b] fold_addResult_frame)
qed

text \<open>
  What the test of \<open>processPage\<close> gives. In every state of a crawl run, \<open>visited\<close> holds
  no text twice, and neither do the logs of the calls of \<open>fetchHtml\<close> and of
  \<open>fetchRenderedHtml\<close>, whose URLs are all in \<open>visited\<close>. A URL whose normal form is in
  \<open>visited\<close> is skipped by \<open>processPage\<close> with the state unchanged, and \<open>visited\<close> only
  grows. The state that \<open>crawlSite\<close> ends in is one of these states.
\<close>

lemma visited_texts_distinct:
  assumes "reachable P cfg st"
  shows "distinct (visited st) \<and> distinct (fetched st) \<and> distinct (rendered st)
       \<and> set (fetched st) \<subseteq> set (visited st) \<and> set (rendered st) \<subseteq> set (visited st)
       \<and> (\<forall>u n s. normalizeUrl P u = Some n \<and> n \<in> set (visited s)
             \<longrightarrow> processPage P cfg u s = (None, s))
       \<and> set (visited st) \<subseteq> set (visited (crawlIteration P cfg st))
       \<and> (\<forall>st'. crawlSite P cfg = Some st' \<longrightarrow> reachable P cfg st')"
proof -
  from reachable_noRepeat [OF assms]
  have "distinct (visited st) \<and> distinct (fetched st) \<and> distinct (rendered st)
       \<and> set (fetched st) \<subseteq> set (visited st) \<and> set (rendered st) \<subseteq> set (visited st)"
    by (simp add: noRepeat_def)
  moreover have "\<forall>u n s. normalizeUrl P u = Some n \<and> n \<in> set (visited s)
             \<longrightarrow> processPage P cfg u s = (None, s)"
    by (simp add: processPage_skip)
  moreover have "\<forall>st'. crawlSite P cfg = Some st' \<longrightarrow> reachable P cfg st'"
    by (simp add: crawlSite_reachable)
  ultimately show ?thesis
    using crawlIteration_visited [of st P cfg] by blast
qed

lemma visited_texts_distinct_example:
  "reachable siteX configX stateX2
   \<and> visited stateX2 = [homeUrl, aboutUrl, otherUrl]
   \<and> fetched stateX2 = [homeUrl, aboutUrl, otherUrl]
   \<and> rendered stateX2 = [otherUrl]
   \<and> distinct (visited stateX2) \<and> distinct (fetched stateX2) \<and> distinct (rendered stateX2)
   \<and> normalizeUrl siteX (js ''https://x.com/about/#team'') = Some aboutUrl
   \<and> processPage siteX configX (js ''https://x.com/about/#team'') stateX2 = (None, stateX2)"
proof -
  have r: "reachable siteX configX stateX2"
    using crawl_siteX by (rule crawlSite_reachable)
  have n: "normalizeUrl siteX (js ''https://x.com/about/#team'') = Some aboutUrl"
    by (simp add: siteX_def aboutUrl_def url_defs str_defs Let_def)
  have v: "aboutUrl \<in> set (visited stateX2)" by (simp add: stateX2_def)
  have f: "visited stateX2 = [homeUrl, aboutUrl, otherUrl]"
    "fetched stateX2 = [homeUrl, aboutUrl, otherUrl]" "rendered stateX2 = [otherUrl]"
    by (simp_all add: stateX2_def)
  from visited_texts_distinct [OF r]
  have d: "distinct (visited stateX2)" "distinct (fetched stateX2)" "distinct (rendered stateX2)"
    and s: "\<forall>u n s. normalizeUrl siteX u = Some n \<and> n \<in> set (visited s)
              \<longrightarrow> processPage siteX configX u s = (None, s)"
    by blast+
  from s n v
  have p: "processPage siteX configX (js ''https://x.com/about/#team'') stateX2 = (None, stateX2)"
    by blast
  show ?thesis
    by (intro conjI r f d n p)
qed

section \<open>One page under two URLs\<close>

lemma siteA_parts:
  "URL_new siteA = plainURL" "URL_new_base siteA = plainURL_base"
  "searchParams_get siteA = plainSearchParam"
  "cheerio_load siteA homeHtmlA = homeDocA" "cheerio_load siteA aboutHtml = aboutDoc"
  by (simp_all add: siteA_def siteX_def homeHtmlA_def aboutHtml_def js_def)

lemma normalize_siteA:
  "normalizeUrl siteA homeUrl = Some homeUrl"
  "normalizeUrl siteA slashUrl2 = Some slashUrl1"
  "normalizeUrl siteA slashUrl1 = Some plainUrlA"
  "normalizeUrl siteA plainUrlA = Some plainUrlA"
  by (simp_all add: normalizeUrl_def siteA_parts homeUrl_def slashUrl2_def slashUrl1_def
      plainUrlA_def plainURL_def splitAtChar_def isHostText_def isPlainChar_def
      isLowerLetter_def isPlainText_def stripUrl_def set_hash_empty_def set_pathname_def
      toString_def str_defs Let_def)

lemma spaView_siteA:
  "getSpaViewId siteA homeUrl = None"
  "getSpaViewId siteA slashUrl1 = None"
  "getSpaViewId siteA plainUrlA = None"
  by (simp_all add: getSpaViewId_def siteA_parts plainSearchParam_def homeUrl_def slashUrl1_def
      plainUrlA_def plainURL_def splitAtChar_def isHostText_def isPlainChar_def
      isLowerLetter_def isPlainText_def str_defs Let_def)

lemma links_homeA: "extractLinks siteA homeDocA homeUrl = [slashUrl2, plainUrlA]"
  by (simp add: extractLinks_def homeDocA_def select_def List.map_filter_def addLink_def
      siteA_parts homeUrl_def slashUrl2_def plainUrlA_def url_defs str_defs Let_def)

lemma links_aboutDoc: "extractLinks P aboutDoc u = []"
  by (simp add: extractLinks_def aboutDoc_def select_def List.map_filter_def js_def)

lemma sections_homeA: "extractSections homeDocA 10 = sections homePageA"
  by (simp add: extractSections_def homeDocA_def select_def headingSection_def
       paragraphSection_def str_defs showNat_1 homePageA_def
       isHeadingName_def truncate_def Let_def)

lemma summary_homeA: "buildSummary homeDocA (sections homePageA) = summary homePageA"
  by (simp add: homePageA_def buildSummary_def homeDocA_def textOfAll_def select_def str_defs
      truncate_def Let_def)

lemma words_homeA: "countWords (summary homePageA) = 5" "summary homePageA \<noteq> []"
  by (simp_all add: homePageA_def countWords_def str_defs)

lemma title_homeA:
  "cleanText (textOfFirst [js ''title''] homeDocA) = []"
  "cleanText (metaDescription homeDocA) = []"
  by (simp_all add: textOfFirst_def metaDescription_def homeDocA_def select_def str_defs)

lemma extract_homeA: "extractPageContent siteA homeHtmlA homeUrl configX = homePageA"
proof -
  have m: "minSectionChars configX = 10" by (simp add: configX_def)
  show ?thesis
    unfolding extractPageContent_def Let_def siteA_parts title_homeA m sections_homeA
      summary_homeA links_homeA
    by (simp add: words_homeA) (simp add: homePageA_def)
qed

lemma extract_aboutA:
  "u \<noteq> [] \<Longrightarrow>
   extractPageContent siteA aboutHtml u configX = aboutPage\<lparr>page.url := u, title := u\<rparr>"
proof -
  have m: "minSectionChars configX = 10" by (simp add: configX_def)
  show ?thesis
    unfolding extractPageContent_def Let_def siteA_parts title_siteX m sections_siteX
      summary_about links_aboutDoc
    by (simp add: words_siteX) (simp add: aboutPage_def)
qed

lemma urlsA_distinct:
  "homeUrl \<noteq> slashUrl1" "homeUrl \<noteq> plainUrlA" "slashUrl1 \<noteq> plainUrlA"
  "slashUrl1 \<noteq> homeUrl" "plainUrlA \<noteq> homeUrl" "plainUrlA \<noteq> slashUrl1"
  "slashUrl2 \<noteq> plainUrlA" "slashUrl2 \<noteq> homeUrl" "plainUrlA \<noteq> slashUrl2"
  "slashUrl1 \<noteq> []" "plainUrlA \<noteq> []"
  by (simp_all add: homeUrl_def slashUrl1_def slashUrl2_def plainUrlA_def js_def)

lemma fetch_siteA:
  "fetchHtml siteA homeUrl = Some (homeHtmlA, 200)"
  "fetchHtml siteA slashUrl1 = Some (aboutHtml, 200)"
  "fetchHtml siteA plainUrlA = Some (aboutHtml, 200)"
  "homeHtmlA \<noteq> []"
  by (simp_all add: fetchHtml_def siteA_def urlsA_distinct homeHtmlA_def js_def)

lemma render_siteA:
  "\<not> needsBrowserRender homePageA"
  "\<not> needsBrowserRender (aboutPage\<lparr>page.url := u, title := u\<rparr>)"
  "links homePageA = [slashUrl2, plainUrlA]" "links (aboutPage\<lparr>page.url := u, title := u\<rparr>) = []"
  by (simp_all add: needsBrowserRender_def homePageA_def aboutPage_def)

lemma process_homeA:
  "homeUrl \<notin> set (visited st) \<Longrightarrow>
   processPage siteA configX homeUrl st
     = (Some (homePageA, [slashUrl2, plainUrlA]),
        st\<lparr>visited := visited st @ [homeUrl], fetched := fetched st @ [homeUrl]\<rparr>)"
  by (simp add: processPage_def normalize_siteA spaView_siteA urls_distinct fetch_siteA
      extract_homeA render_siteA render_siteX)

lemma process_slash:
  "slashUrl1 \<notin> set (visited st) \<Longrightarrow>
   processPage siteA configX slashUrl2 st
     = (Some (aboutPage\<lparr>page.url := slashUrl1, title := slashUrl1\<rparr>, []),
        st\<lparr>visited := visited st @ [slashUrl1], fetched := fetched st @ [slashUrl1]\<rparr>)"
  by (simp add: processPage_def normalize_siteA spaView_siteA urlsA_distinct fetch_siteA
      fetch_siteX extract_aboutA render_siteA render_siteX)

lemma process_plainA:
  "plainUrlA \<notin> set (visited st) \<Longrightarrow>
   processPage siteA configX plainUrlA st
     = (Some (aboutPage\<lparr>page.url := plainUrlA, title := plainUrlA\<rparr>, []),
        st\<lparr>visited := visited st @ [plainUrlA], fetched := fetched st @ [plainUrlA]\<rparr>)"
  by (simp add: processPage_def normalize_siteA spaView_siteA urlsA_distinct fetch_siteA
      fetch_siteX extract_aboutA render_siteA render_siteX)

lemma startsWith_originA:
  "startsWith slashUrl2 (js ''https://x.com'')" "startsWith plainUrlA (js ''https://x.com'')"
  by (simp_all add: startsWith_def slashUrl2_def plainUrlA_def js_def)

lemma iterationA1: "crawlIteration siteA configX (initialState configX) = stateA1"
  by (simp add: crawlIteration_def dequeueBatch_def configX_simps process_homeA
      List.map_filter_def addResult_def enqueueLink_def urlsA_distinct startsWith_originA
      stateA1_def)

lemma iterationA2: "crawlIteration siteA configX stateA1 = stateA2"
  by (simp add: crawlIteration_def dequeueBatch_def configX_simps process_slash process_plainA
      List.map_filter_def addResult_def enqueueLink_def urlsA_distinct
      stateA1_def stateA2_def)

lemma crawl_siteA: "crawlSite siteA configX = Some stateA2"
proof -
  have "crawlLoop siteA configX stateA2 = Some stateA2"
    by (subst crawlLoop.simps) (simp add: stateA2_def)
  then have "crawlLoop siteA configX stateA1 = Some stateA2"
    by (subst crawlLoop.simps) (simp add: iterationA2, simp add: stateA1_def configX_simps)
  then have "crawlLoop siteA configX (initialState configX) = Some stateA2"
    by (subst crawlLoop.simps) (simp add: iterationA1, simp add: configX_simps)
  then show ?thesis by (simp add: crawlSite_def)
qed

text \<open>
  C7. The specification says that no URL, under normalization, is fetched or rendered
  more than once, and that \<open>visited\<close> holds no normalized URL twice. \<open>processPage\<close>
  normalizes the URL it is given once, and \<open>normalizeUrl\<close> takes one slash off the path,
  so what it stores in \<open>visited\<close> and fetches need not be in normal form. On the site
  whose start page links to \<open>/a///\<close> and to \<open>/a\<close>, the crawl fetches
  \<open>https://x.com/a/\<close> and \<open>https://x.com/a\<close>, which \<open>normalizeUrl\<close> maps to the same
  URL, and both are in \<open>visited\<close>.
\<close>

theorem same_page_fetched_twice:
  "crawlSite siteA configX = Some stateA2
   \<and> fetched stateA2 = [js ''https://x.com/'', js ''https://x.com/a/'', js ''https://x.com/a'']
   \<and> visited stateA2 = [js ''https://x.com/'', js ''https://x.com/a/'', js ''https://x.com/a'']
   \<and> normalizeUrl siteA (js ''https://x.com/a/'') = Some (js ''https://x.com/a'')
   \<and> normalizeUrl siteA (js ''https://x.com/a'') = Some (js ''https://x.com/a'')
   \<and> \<not> distinct (map (normalizeUrl siteA) (fetched stateA2))
   \<and> \<not> distinct (map (normalizeUrl siteA) (visited stateA2))"
proof -
  have f: "fetched stateA2 = [js ''https://x.com/'', js ''https://x.com/a/'', js ''https://x.com/a'']"
    "visited stateA2 = [js ''https://x.com/'', js ''https://x.com/a/'', js ''https://x.com/a'']"
    by (simp_all add: stateA2_def homeUrl_def slashUrl1_def plainUrlA_def)
  have n: "normalizeUrl siteA (js ''https://x.com/a/'') = Some (js ''https://x.com/a'')"
    "normalizeUrl siteA (js ''https://x.com/a'') = Some (js ''https://x.com/a'')"
    using normalize_siteA by (simp_all add: slashUrl1_def plainUrlA_def)
  have d: "\<not> distinct (map (normalizeUrl siteA) (fetched stateA2))"
    "\<not> distinct (map (normalizeUrl siteA) (visited stateA2))"
    unfolding f by (simp_all add: n)
  show ?thesis
    by (intro conjI crawl_siteA f n d)
qed

section \<open>Normalization of URLs\<close>

lemma endsWith_iff: "endsWith s p \<longleftrightarrow> (\<exists>t. s = t @ p)"
proof
  assume "endsWith s p"
  then have "s = take (length s - length p) s @ p"
    by (metis append_take_drop_id endsWith_def)
  then show "\<exists>t. s = t @ p" ..
next
  assume "\<exists>t. s = t @ p"
  then show "endsWith s p" by (auto simp: endsWith_def)
qed

lemma endsWith_butlast:
  assumes "endsWith p (js ''/'')" and "endsWith (butlast p) (js ''/'')"
  shows "endsWith p (js ''//'')"
proof -
  from assms(1) obtain t where t: "p = t @ js ''/''" by (auto simp: endsWith_iff)
  then have "butlast p = t" by (simp add: js_def)
  with assms(2) obtain t' where "t = t' @ js ''/''" by (auto simp: endsWith_iff)
  with t have "p = t' @ js ''//''" by (simp add: js_def)
  then show ?thesis by (auto simp: endsWith_iff)
qed

lemma set_hash_empty_idem: "set_hash_empty (set_hash_empty w) = set_hash_empty w"
  by (simp add: set_hash_empty_def)

lemma set_hash_empty_plain:
  "\<not> opaque w \<Longrightarrow> set_hash_empty w = w\<lparr>fragment := None\<rparr>"
  by (simp add: set_hash_empty_def)

lemma stripUrl_opaque: "opaque w \<Longrightarrow> stripUrl w = set_hash_empty w"
  by (simp add: stripUrl_def Let_def set_pathname_def set_hash_empty_def)

lemma stripUrl_idem:
  assumes "opaque w \<or> pathname w = js ''//'' \<or> \<not> endsWith (pathname w) (js ''//'')"
  shows "stripUrl (stripUrl w) = stripUrl w"
proof (cases "opaque w")
  case True
  then have "opaque (set_hash_empty w)" by (simp add: set_hash_empty_def)
  with True show ?thesis by (simp add: stripUrl_opaque set_hash_empty_idem)
next
  case False
  let ?p = "pathname w"
  show ?thesis
  proof (cases "?p \<noteq> js ''/'' \<and> endsWith ?p (js ''/'')")
    case strip: True
    then have v: "stripUrl w = w\<lparr>fragment := None, pathname := butlast ?p\<rparr>"
      using False by (simp add: stripUrl_def Let_def set_hash_empty_plain set_pathname_def)
    have "butlast ?p = js ''/'' \<or> \<not> endsWith (butlast ?p) (js ''/'')"
    proof (cases "?p = js ''//''")
      case True
      then show ?thesis by (simp add: js_def)
    next
      case ne: False
      with assms False have "\<not> endsWith ?p (js ''//'')" by simp
      with strip endsWith_butlast [of ?p] show ?thesis by blast
    qed
    then show ?thesis
      unfolding v using False
      by (auto simp: stripUrl_def Let_def set_hash_empty_plain)
  next
    case keep: False
    then have v: "stripUrl w = w\<lparr>fragment := None\<rparr>"
      using False by (auto simp: stripUrl_def Let_def set_hash_empty_plain)
    show ?thesis
      unfolding v using False keep
      by (auto simp: stripUrl_def Let_def set_hash_empty_plain)
  qed
qed

lemma stripUrl_fragment: "stripUrl (w\<lparr>fragment := f\<rparr>) = stripUrl w"
  by (simp add: stripUrl_def set_hash_empty_def Let_def set_pathname_def)

lemma stripUrl_slash:
  assumes "\<not> opaque w" and "pathname w \<noteq> []" and "\<not> endsWith (pathname w) (js ''/'')"
  shows "stripUrl (w\<lparr>pathname := pathname w @ js ''/''\<rparr>) = stripUrl w"
proof -
  have e: "endsWith (pathname w @ js ''/'') (js ''/'')" by (auto simp: endsWith_iff)
  from assms(2) have n: "pathname w @ js ''/'' \<noteq> js ''/''" by (simp add: js_def)
  have b: "butlast (pathname w @ js ''/'') = pathname w" by (simp add: js_def)
  from assms(1) assms(3) e n b show ?thesis
    by (simp add: stripUrl_def Let_def set_hash_empty_plain set_pathname_def)
qed

lemma parse_xcom:
  "URL_new siteX (js ''https://x.com/a//'') = Some (xcom (js ''/a//'') None)"
  "URL_new siteX (js ''https://x.com/a/'') = Some (xcom (js ''/a/'') None)"
  "URL_new siteX (js ''https://x.com/a'') = Some (xcom (js ''/a'') None)"
  "URL_new siteX (js ''https://x.com/a/#top'') = Some (xcom (js ''/a/'') (Some (js ''top'')))"
  "URL_new siteX (js ''https://x.com/a#top'') = Some (xcom (js ''/a'') (Some (js ''top'')))"
  by (simp_all add: siteX_def xcom_def plainURL_def splitAtChar_def isHostText_def
      isPlainChar_def isLowerLetter_def isPlainText_def str_defs Let_def)

lemma strip_xcom:
  "stripUrl (xcom (js ''/a//'') f) = xcom (js ''/a/'') None"
  "stripUrl (xcom (js ''/a/'') f) = xcom (js ''/a'') None"
  "stripUrl (xcom (js ''/a'') f) = xcom (js ''/a'') None"
  by (simp_all add: stripUrl_def xcom_def set_hash_empty_def set_pathname_def str_defs Let_def)

lemma toString_xcom:
  "toString (xcom (js ''/a/'') None) = js ''https://x.com/a/''"
  "toString (xcom (js ''/a'') None) = js ''https://x.com/a''"
  by (simp_all add: toString_def xcom_def js_def)

lemma normalize_xcom:
  "normalizeUrl siteX (js ''https://x.com/a//'') = Some (js ''https://x.com/a/'')"
  "normalizeUrl siteX (js ''https://x.com/a/'') = Some (js ''https://x.com/a'')"
  "normalizeUrl siteX (js ''https://x.com/a'') = Some (js ''https://x.com/a'')"
  "normalizeUrl siteX (js ''https://x.com/a/#top'') = Some (js ''https://x.com/a'')"
  "normalizeUrl siteX (js ''https://x.com/a#top'') = Some (js ''https://x.com/a'')"
  by (simp_all add: normalizeUrl_def parse_xcom strip_xcom toString_xcom)

lemma takeWhile_all: "\<forall>x \<in> set xs. P x \<Longrightarrow> takeWhile P (xs @ ys) = xs @ takeWhile P ys"
  by (induction xs) auto

lemma dropWhile_all: "\<forall>x \<in> set xs. P x \<Longrightarrow> dropWhile P (xs @ ys) = dropWhile P ys"
  by (induction xs) auto

lemma splitAtChar_none:
  assumes "c \<notin> set s"
  shows "splitAtChar c s = (s, None)"
proof -
  from assms have a: "\<forall>x \<in> set s. x \<noteq> c" by auto
  then have t: "takeWhile (\<lambda>x. x \<noteq> c) s = s" and d: "dropWhile (\<lambda>x. x \<noteq> c) s = []"
    by simp_all
  show ?thesis unfolding splitAtChar_def t d by simp
qed

lemma splitAtChar_some:
  assumes "c \<notin> set s"
  shows "splitAtChar c (s @ c # r) = (s, Some r)"
proof -
  from assms have a: "\<forall>x \<in> set s. x \<noteq> c" by auto
  show ?thesis
    by (simp add: splitAtChar_def takeWhile_all [OF a] dropWhile_all [OF a])
qed

lemma plainChar_not:
  "isPlainChar c \<Longrightarrow> c \<noteq> 0x23 \<and> c \<noteq> 0x3F"
  "isLowerLetter c \<or> c = 0x2E \<Longrightarrow> c \<noteq> 0x23 \<and> c \<noteq> 0x3F \<and> c \<noteq> 0x2F"
  "isPlainChar c \<or> c = 0x3D \<or> c = 0x26 \<Longrightarrow> c \<noteq> 0x23"
  by (auto simp: isPlainChar_def isLowerLetter_def)

lemma plainURL_parts:
  assumes "plainURL u = Some w"
  shows "\<exists>scheme host. plainParts scheme host w"
proof -
  obtain s1 frag where f: "splitAtChar 0x23 u = (s1, frag)" by (cases "splitAtChar 0x23 u")
  obtain s2 qry where q: "splitAtChar 0x3F s1 = (s2, qry)" by (cases "splitAtChar 0x3F s1")
  let ?scheme = "if startsWith s2 (js ''https://'') then js ''https:''
                 else if startsWith s2 (js ''http://'') then js ''http:'' else []"
  let ?rest = "drop (length ?scheme + 2) s2"
  let ?host = "takeWhile (\<lambda>c. c \<noteq> 0x2F) ?rest"
  let ?path = "dropWhile (\<lambda>c. c \<noteq> 0x2F) ?rest"
  from assms f q
  have ok: "?scheme \<noteq> []" "isHostText ?host" "list_all isPlainChar ?path"
      "isPlainText qry" "isPlainText frag"
    and w: "w = \<lparr>prefix = ?scheme @ js ''//'' @ ?host, URL.origin = ?scheme @ js ''//'' @ ?host,
                 opaque = False, pathname = (if ?path = [] then js ''/'' else ?path),
                 query = qry, fragment = frag\<rparr>"
    by (auto simp: plainURL_def Let_def split: if_splits)
  from ok(1) have sch: "?scheme = js ''https:'' \<or> ?scheme = js ''http:''"
    by (auto split: if_splits)
  have "\<exists>p. (if ?path = [] then js ''/'' else ?path) = 0x2F # p"
  proof (cases "?path")
    case Nil
    then show ?thesis by (simp add: js_def)
  next
    case (Cons c cs)
    then have "c = 0x2F" using hd_dropWhile [of "\<lambda>c. c \<noteq> 0x2F" ?rest] by auto
    with Cons show ?thesis by simp
  qed
  moreover have "list_all isPlainChar (if ?path = [] then js ''/'' else ?path)"
    using ok(3) by (simp add: js_def isPlainChar_def)
  ultimately have "plainParts ?scheme ?host w"
    unfolding plainParts_def using sch ok w by simp
  then show ?thesis by blast
qed

lemma stripUrl_parts:
  assumes "plainParts scheme host w"
  shows "plainParts scheme host (stripUrl w) \<and> fragment (stripUrl w) = None"
proof -
  from assms obtain p where p: "pathname w = 0x2F # p" and no: "\<not> opaque w"
    and pc: "list_all isPlainChar (pathname w)"
    by (auto simp: plainParts_def)
  show ?thesis
  proof (cases "pathname w \<noteq> js ''/'' \<and> endsWith (pathname w) (js ''/'')")
    case True
    then have v: "stripUrl w = w\<lparr>fragment := None, pathname := butlast (pathname w)\<rparr>"
      using no by (simp add: stripUrl_def Let_def set_hash_empty_plain set_pathname_def)
    from True p have "p \<noteq> []" by (auto simp: js_def)
    with p have b: "butlast (pathname w) = 0x2F # butlast p" by simp
    from pc have "list_all isPlainChar (butlast (pathname w))"
      by (auto simp: list_all_iff dest: in_set_butlastD)
    with assms b show ?thesis
      unfolding v by (simp add: plainParts_def isPlainText_def)
  next
    case False
    then have v: "stripUrl w = w\<lparr>fragment := None\<rparr>"
      using no by (auto simp: stripUrl_def Let_def set_hash_empty_plain)
    from assms show ?thesis
      unfolding v by (simp add: plainParts_def isPlainText_def)
  qed
qed

lemma plainURL_toString:
  assumes "plainParts scheme host w" and "fragment w = None"
  shows "plainURL (toString w) = Some w"
proof -
  from assms obtain p where p: "pathname w = 0x2F # p"
    and pre: "prefix w = scheme @ js ''//'' @ host" "URL.origin w = scheme @ js ''//'' @ host"
    and sch: "scheme = js ''https:'' \<or> scheme = js ''http:''"
    and h: "isHostText host" and pc: "list_all isPlainChar (pathname w)"
    and qc: "isPlainText (query w)" and no: "\<not> opaque w"
    by (auto simp: plainParts_def)
  let ?body = "scheme @ js ''//'' @ host @ pathname w"
  have hostc: "\<forall>c \<in> set host. c \<noteq> 0x23 \<and> c \<noteq> 0x3F \<and> c \<noteq> 0x2F"
    using h plainChar_not(2) by (auto simp: isHostText_def list_all_iff)
  have pathc: "\<forall>c \<in> set (pathname w). c \<noteq> 0x23 \<and> c \<noteq> 0x3F"
    using pc plainChar_not(1) by (auto simp: list_all_iff)
  have schc: "\<forall>c \<in> set (scheme @ js ''//''). c \<noteq> 0x23 \<and> c \<noteq> 0x3F"
    using sch by (auto simp: js_def)
  have body23: "0x23 \<notin> set ?body" and body3F: "0x3F \<notin> set ?body"
    using hostc pathc schc by auto
  have ts: "toString w = ?body @ (case query w of None \<Rightarrow> [] | Some q \<Rightarrow> 0x3F # q)"
    using assms(2) pre by (simp add: toString_def)
  have q23: "0x23 \<notin> set (case query w of None \<Rightarrow> [] | Some q \<Rightarrow> 0x3F # q)"
    using qc plainChar_not(3) by (auto simp: isPlainText_def list_all_iff split: option.splits)
  have s1: "splitAtChar 0x23 (toString w) = (toString w, None)"
    using body23 q23 unfolding ts by (intro splitAtChar_none) auto
  have s2: "splitAtChar 0x3F (toString w) = (?body, query w)"
  proof (cases "query w")
    case None
    with body3F show ?thesis unfolding ts by (simp add: splitAtChar_none)
  next
    case (Some q)
    with splitAtChar_some [OF body3F, of q] show ?thesis unfolding ts by simp
  qed
  have sc: "(if startsWith ?body (js ''https://'') then js ''https:''
             else if startsWith ?body (js ''http://'') then js ''http:'' else []) = scheme"
    using sch by (auto simp: startsWith_def js_def)
  have rest: "drop (length scheme + 2) ?body = host @ pathname w"
    using sch by (auto simp: js_def)
  have th: "takeWhile (\<lambda>c. c \<noteq> 0x2F) (host @ pathname w) = host"
    using hostc p by (simp add: takeWhile_all)
  have dh: "dropWhile (\<lambda>c. c \<noteq> 0x2F) (host @ pathname w) = pathname w"
    using hostc p by (simp add: dropWhile_all)
  have sne: "scheme \<noteq> []" using sch by (auto simp: js_def)
  have fr: "isPlainText None" by (simp add: isPlainText_def)
  show ?thesis
    unfolding plainURL_def s1 prod.case s2 Let_def sc rest th dh
    using sne h pc qc fr p pre no assms(2) by simp
qed

lemma plainURL_reparse:
  assumes "plainURL u = Some w"
  shows "plainURL (toString (stripUrl w)) = Some (stripUrl w)"
proof -
  from plainURL_parts [OF assms] obtain scheme host where "plainParts scheme host w" by blast
  from stripUrl_parts [OF this] show ?thesis by (auto intro: plainURL_toString)
qed

text \<open>
  For the plain parser the normal form is read back as it was serialised, so on the
  plain URLs normalization is idempotent whenever the path does not end in two
  slashes.
\<close>

corollary normalizeUrl_plain_idempotent:
  assumes "URL_new siteX u = Some w"
    and "pathname w = js ''//'' \<or> \<not> endsWith (pathname w) (js ''//'')"
    and "normalizeUrl siteX u = Some v"
  shows "normalizeUrl siteX v = Some v"
proof -
  from assms(1) have pl: "plainURL u = Some w" by (simp add: siteX_def)
  from assms(1) assms(3) have v: "v = toString (stripUrl w)" by (simp add: normalizeUrl_def)
  from plainURL_reparse [OF pl] have "URL_new siteX v = Some (stripUrl w)"
    by (simp add: siteX_def v)
  moreover from assms(2) have "stripUrl (stripUrl w) = stripUrl w"
    by (intro stripUrl_idem) blast
  ultimately show ?thesis by (simp add: normalizeUrl_def v)
qed

text \<open>
  C5. The specification says that normalization is idempotent and that two URLs that
  differ by a trailing slash only normalize to the same string. \<open>normalizeUrl\<close> takes
  one slash off the end of the path: \<open>https://x.com/a//\<close> becomes \<open>https://x.com/a/\<close>,
  which still ends in the slash that the function is there to remove, and that becomes
  \<open>https://x.com/a\<close>. Normalizing twice differs from normalizing once, and the two
  URLs, which differ by a trailing slash only, normalize to different strings.
\<close>

theorem normalizeUrl_twice_differs:
  "normalizeUrl siteX (js ''https://x.com/a//'') = Some (js ''https://x.com/a/'')
   \<and> normalizeUrl siteX (js ''https://x.com/a/'') = Some (js ''https://x.com/a'')
   \<and> Option.bind (normalizeUrl siteX (js ''https://x.com/a//'')) (normalizeUrl siteX)
       \<noteq> normalizeUrl siteX (js ''https://x.com/a//'')"
  by (simp add: normalize_xcom) (simp add: js_def)

text \<open>
  What does hold. Let \<open>normalizeUrl\<close> succeed on \<open>u\<close> with the result \<open>v\<close>, let the path
  of \<open>u\<close> not end in two slashes (unless the path is \<open>//\<close> or opaque), and let the URL
  parser read \<open>v\<close> back as the URL object it was serialised from; then
  \<open>normalizeUrl v = v\<close>. Two URLs that differ in the fragment only normalize to the same
  string. Two URLs with a path that is not opaque, whose paths differ by one trailing
  slash, the shorter path neither empty nor ending in a slash, normalize to the same
  string; \<open>https://x.com/a/\<close> and \<open>https://x.com/a\<close> do.
\<close>

lemma normalizeUrl_single_slash:
  "(URL_new P u = Some w
      \<and> (opaque w \<or> pathname w = js ''//'' \<or> \<not> endsWith (pathname w) (js ''//''))
      \<and> normalizeUrl P u = Some v \<and> URL_new P v = Some (stripUrl w)
     \<longrightarrow> normalizeUrl P v = Some v)
   \<and> (URL_new P u1 = Some w1 \<and> URL_new P u2 = Some (w1\<lparr>fragment := f\<rparr>)
     \<longrightarrow> normalizeUrl P u1 = normalizeUrl P u2)
   \<and> (URL_new P u1 = Some w1 \<and> URL_new P u2 = Some (w1\<lparr>pathname := pathname w1 @ js ''/''\<rparr>)
      \<and> \<not> opaque w1 \<and> pathname w1 \<noteq> [] \<and> \<not> endsWith (pathname w1) (js ''/'')
     \<longrightarrow> normalizeUrl P u1 = normalizeUrl P u2)
   \<and> normalizeUrl siteX (js ''https://x.com/a/'') = normalizeUrl siteX (js ''https://x.com/a'')"
proof (intro conjI impI)
  assume a: "URL_new P u = Some w
      \<and> (opaque w \<or> pathname w = js ''//'' \<or> \<not> endsWith (pathname w) (js ''//''))
      \<and> normalizeUrl P u = Some v \<and> URL_new P v = Some (stripUrl w)"
  then have v: "v = toString (stripUrl w)" by (auto simp: normalizeUrl_def)
  from a have "stripUrl (stripUrl w) = stripUrl w" by (intro stripUrl_idem) blast
  with a v show "normalizeUrl P v = Some v" by (simp add: normalizeUrl_def)
next
  assume "URL_new P u1 = Some w1 \<and> URL_new P u2 = Some (w1\<lparr>fragment := f\<rparr>)"
  then show "normalizeUrl P u1 = normalizeUrl P u2"
    by (simp add: normalizeUrl_def stripUrl_fragment)
next
  assume a: "URL_new P u1 = Some w1 \<and> URL_new P u2 = Some (w1\<lparr>pathname := pathname w1 @ js ''/''\<rparr>)
      \<and> \<not> opaque w1 \<and> pathname w1 \<noteq> [] \<and> \<not> endsWith (pathname w1) (js ''/'')"
  then have "stripUrl (w1\<lparr>pathname := pathname w1 @ js ''/''\<rparr>) = stripUrl w1"
    by (intro stripUrl_slash) simp_all
  with a show "normalizeUrl P u1 = normalizeUrl P u2"
    by (simp add: normalizeUrl_def)
next
  show "normalizeUrl siteX (js ''https://x.com/a/'') = normalizeUrl siteX (js ''https://x.com/a'')"
    by (simp add: normalize_xcom)
qed

lemma normalizeUrl_single_slash_example:
  "URL_new siteX (js ''https://x.com/a/#top'') = Some (xcom (js ''/a/'') (Some (js ''top'')))
   \<and> \<not> endsWith (js ''/a/'') (js ''//'')
   \<and> normalizeUrl siteX (js ''https://x.com/a/#top'') = Some (js ''https://x.com/a'')
   \<and> URL_new siteX (js ''https://x.com/a'') = Some (stripUrl (xcom (js ''/a/'') (Some (js ''top''))))
   \<and> normalizeUrl siteX (js ''https://x.com/a'') = Some (js ''https://x.com/a'')
   \<and> URL_new siteX (js ''https://x.com/a'') = Some ((xcom (js ''/a'') (Some (js ''top'')))\<lparr>fragment := None\<rparr>)
   \<and> normalizeUrl siteX (js ''https://x.com/a#top'') = normalizeUrl siteX (js ''https://x.com/a'')
   \<and> URL_new siteX (js ''https://x.com/a/'')
       = Some ((xcom (js ''/a'') None)\<lparr>pathname := pathname (xcom (js ''/a'') None) @ js ''/''\<rparr>)
   \<and> \<not> endsWith (js ''/a'') (js ''/'')
   \<and> normalizeUrl siteX (js ''https://x.com/a'') = normalizeUrl siteX (js ''https://x.com/a/'')"
proof -
  have e: "\<not> endsWith (js ''/a/'') (js ''//'')" "\<not> endsWith (js ''/a'') (js ''/'')"
    by (simp_all add: str_defs)
  have p: "URL_new siteX (js ''https://x.com/a'')
             = Some (stripUrl (xcom (js ''/a/'') (Some (js ''top''))))"
    "URL_new siteX (js ''https://x.com/a'')
             = Some ((xcom (js ''/a'') (Some (js ''top'')))\<lparr>fragment := None\<rparr>)"
    "URL_new siteX (js ''https://x.com/a/'')
       = Some ((xcom (js ''/a'') None)\<lparr>pathname := pathname (xcom (js ''/a'') None) @ js ''/''\<rparr>)"
    by (simp_all add: parse_xcom strip_xcom) (simp_all add: xcom_def js_def)
  have x: "pathname (xcom (js ''/a/'') (Some (js ''top''))) = js ''/a/''"
    "pathname (xcom (js ''/a'') None) = js ''/a''" "\<not> opaque (xcom (js ''/a'') None)"
    "js ''/a'' \<noteq> []"
    by (simp_all add: xcom_def js_def)
  from normalizeUrl_single_slash
    [of siteX "js ''https://x.com/a/#top''" "xcom (js ''/a/'') (Some (js ''top''))"
        "js ''https://x.com/a''" "js ''https://x.com/a#top''"
        "xcom (js ''/a'') (Some (js ''top''))" "js ''https://x.com/a''" None]
    normalizeUrl_single_slash
    [of siteX _ _ _ "js ''https://x.com/a''" "xcom (js ''/a'') None" "js ''https://x.com/a/''"]
    e p x parse_xcom normalize_xcom
  show ?thesis by simp
qed

end
